theory Spec2Isabelle
  imports Main "HOL-Library.Word"
begin

unbundle bit_operations_syntax

section \<open>Values, errors and memory of the uBASIC interpreter (ubasic.c)\<close>

text \<open>
  \<open>ubasic_error\<close> prints a diagnostic and calls \<open>exit(1)\<close>; \<open>accept_tok\<close> exits on an
  unexpected token. Every such exit is a value of \<open>error\<close>. \<open>OutOfBounds\<close> and
  \<open>UseAfterFree\<close> stand for the accesses C leaves undefined (outside the object a
  pointer points into, or into a released block), \<open>NullCall\<close> for a call through a
  NULL hook; \<open>OutOfFuel\<close> is the one value that is
  not an outcome of the C code: the recursion bound of the evaluator below ran out.
\<close>

datatype error =
    Syntax | BadType | DivZero | OutOfMemory
  | StringTooLong | OutOfTempSpace
  | ReturnWithoutGosub | MismatchedNext | InvalidBase | Badsw | Badv
  | TokenMismatch
  | OutOfBounds | UseAfterFree | UnionMisread | NullCall
  | OutOfFuel

type_synonym byte = "8 word"

text \<open>
  A string is a pointer to a length-prefixed buffer. The buffers of this program live in
  four places: the one-byte sentinel \<open>nullstr\<close>, a block returned by \<open>malloc\<close>, the
  scratch arena \<open>stringblob\<close> (addressed by the offset from its start), and the line
  buffer on the stack of \<open>input_statement\<close>.
\<close>

datatype ptr = Nullstr | Heap nat | Arena int | Stackbuf


definition bindE :: "error + 'a \<Rightarrow> ('a \<Rightarrow> error + 'b) \<Rightarrow> error + 'b" where
  "bindE m f = (case m of Inl e \<Rightarrow> Inl e | Inr x \<Rightarrow> f x)"

text \<open>
  \<open>struct typevalue\<close>: the tag \<open>type\<close> (\<open>TYPE_INTEGER\<close> is the character \<open>I\<close> and
  \<open>TYPE_STRING\<close> the character \<open>S\<close> of the format strings of \<open>funcexpr\<close>) and the union
  \<open>d\<close> of \<open>d.i\<close> and \<open>d.p\<close>. The tag and the member last stored are kept apart, since
  \<open>relation\<close> sets the tag without storing the member; reading the member that was not
  stored last is \<open>UnionMisread\<close>.
\<close>

datatype vtype = TYPE_INTEGER | TYPE_STRING

datatype payload = DI int | DP ptr

datatype typevalue = TV (type: vtype) (d: payload)

abbreviation TInt :: "int \<Rightarrow> typevalue" where
  "TInt i \<equiv> TV TYPE_INTEGER (DI i)"

abbreviation TStr :: "ptr \<Rightarrow> typevalue" where
  "TStr p \<equiv> TV TYPE_STRING (DP p)"

definition d_i :: "typevalue \<Rightarrow> error + int" where
  "d_i v = (case d v of DI i \<Rightarrow> Inr i | DP p \<Rightarrow> Inl UnionMisread)"

definition d_p :: "typevalue \<Rightarrow> error + ptr" where
  "d_p v = (case d v of DP p \<Rightarrow> Inr p | DI i \<Rightarrow> Inl UnionMisread)"

text \<open>
  The memory the string operations touch: the heap as a list of blocks (\<open>None\<close> once
  freed; \<open>malloc\<close> appends, so a block number is never reused), the arena with its bump
  cursor \<open>nextstr\<close> (an offset into \<open>stringblob\<close>), and the stack buffer.
  \<open>heap_cap\<close> is the number of blocks \<open>malloc\<close> can hand out before it returns NULL.
\<close>

record mem =
  heap :: "byte list option list"
  heap_cap :: nat
  stringblob :: "byte list"
  nextstr :: int
  stackbuf :: "byte list"

definition STRINGBLOB_SIZE :: int where
  "STRINGBLOB_SIZE = 512"

text \<open>Reading the byte at \<open>p[i]\<close>.\<close>

definition rd_list :: "byte list \<Rightarrow> int \<Rightarrow> error + byte" where
  "rd_list xs i = (if 0 \<le> i \<and> i < int (length xs) then Inr (xs ! nat i) else Inl OutOfBounds)"

definition rd :: "'a mem_scheme \<Rightarrow> ptr \<Rightarrow> int \<Rightarrow> error + byte" where
  "rd m p i =
     (case p of
        Nullstr \<Rightarrow> rd_list [0] i
      | Heap b \<Rightarrow>
          (if b < length (heap m)
           then (case heap m ! b of None \<Rightarrow> Inl UseAfterFree | Some blk \<Rightarrow> rd_list blk i)
           else Inl OutOfBounds)
      | Arena off \<Rightarrow> rd_list (stringblob m) (off + i)
      | Stackbuf \<Rightarrow> rd_list (stackbuf m) i)"

text \<open>
  The bytes \<open>memcpy\<close> reads from \<open>p + i\<close>: the count is a \<open>size_t\<close>, so a negative \<open>n\<close>
  is a huge count and leaves every object.
\<close>

fun rd_upto :: "'a mem_scheme \<Rightarrow> ptr \<Rightarrow> int \<Rightarrow> nat \<Rightarrow> error + byte list" where
  "rd_upto m p i 0 = Inr []"
| "rd_upto m p i (Suc k) =
     bindE (rd m p i) (\<lambda>b. bindE (rd_upto m p (i + 1) k) (\<lambda>bs. Inr (b # bs)))"

definition rd_bytes :: "'a mem_scheme \<Rightarrow> ptr \<Rightarrow> int \<Rightarrow> int \<Rightarrow> error + byte list" where
  "rd_bytes m p i n = (if n < 0 then Inl OutOfBounds else rd_upto m p i (nat n))"

text \<open>Writing into the arena at offset \<open>off\<close> (the only memory expressions write to).\<close>

definition wr_arena :: "int \<Rightarrow> byte list \<Rightarrow> 'a mem_scheme \<Rightarrow> error + 'a mem_scheme" where
  "wr_arena off bs m =
     (if 0 \<le> off \<and> off + int (length bs) \<le> int (length (stringblob m))
      then Inr (m\<lparr>stringblob :=
                  take (nat off) (stringblob m) @ bs @
                  drop (nat off + length bs) (stringblob m)\<rparr>)
      else Inl OutOfBounds)"

text \<open>\<open>memcpy(dst + di, src + si, n)\<close> with \<open>dst\<close> in the arena.\<close>

definition memcpy_arena ::
  "int \<Rightarrow> ptr \<Rightarrow> int \<Rightarrow> int \<Rightarrow> 'a mem_scheme \<Rightarrow> error + 'a mem_scheme" where
  "memcpy_arena dst src si n m = bindE (rd_bytes m src si n) (\<lambda>bs. wr_arena dst bs m)"

section \<open>The scratch arena\<close>

text \<open>
  \<open>string_temp(len)\<close>: the cursor is advanced before the length byte is stored at the
  old cursor; the byte stored is \<open>len\<close> truncated to \<open>uint8_t\<close>.
\<close>

definition string_temp :: "int \<Rightarrow> 'a mem_scheme \<Rightarrow> error + (int \<times> 'a mem_scheme)" where
  "string_temp len m =
     (let p = nextstr m in
      if len > 255 then Inl StringTooLong
      else
        let m1 = m\<lparr>nextstr := nextstr m + (len + 1)\<rparr> in
        if nextstr m1 > STRINGBLOB_SIZE then Inl OutOfTempSpace
        else bindE (wr_arena p [word_of_int len] m1) (\<lambda>m2. Inr (p, m2)))"

definition string_temp_free :: "'a mem_scheme \<Rightarrow> 'a mem_scheme" where
  "string_temp_free m = m\<lparr>nextstr := 0\<rparr>"

section \<open>LEFT$, RIGHT$ and MID$\<close>

text \<open>
  \<open>string_cut(o, t, l, n)\<close> and \<open>string_cut_r(o, t, r)\<close>; \<open>t\<close> is the operand's buffer,
  the result pointer is returned.
\<close>

definition string_cut :: "ptr \<Rightarrow> int \<Rightarrow> int \<Rightarrow> 'a mem_scheme \<Rightarrow> error + (typevalue \<times> 'a mem_scheme)" where
  "string_cut p l n m =
     bindE (rd m p 0) (\<lambda>b.
       let f = uint b in
       if l > f then bindE (string_temp 0 m) (\<lambda>(q, m1). Inr (TStr (Arena q), m1))
       else
         let f1 = f - (l - 1);
             n1 = (if f1 < n then f1 else n)
         in bindE (string_temp n1 m) (\<lambda>(q, m1).
              bindE (memcpy_arena (q + 1) p l n1 m1) (\<lambda>m2. Inr (TStr (Arena q), m2))))"

definition string_cut_r :: "ptr \<Rightarrow> int \<Rightarrow> 'a mem_scheme \<Rightarrow> error + (typevalue \<times> 'a mem_scheme)" where
  "string_cut_r p r m =
     bindE (rd m p 0) (\<lambda>b.
       let f = uint b - r in
       if f \<le> 0 then bindE (string_temp 0 m) (\<lambda>(q, m1). Inr (TStr (Arena q), m1))
       else string_cut p (f + 1) r m)"

section \<open>The tokenizer and the interpreter state\<close>

text \<open>
  Modelled from the spec: the tokenizer (\<open>tokenizer.c\<close>, \<open>tokenizer.h\<close>) is not among
  the sources. The spec gives its contract: the current token's identity, the decoded
  number, variable identifier and string of the current token, advancing to the next
  token, a source position bookmark and a jump to one, the end-of-input query, and
  reinitialising at the program start. The program text is therefore a list of lexemes
  and a position is an index into it; \<open>token\<close> has the \<open>TOKENIZER_\<close> names that
  \<open>ubasic.c\<close> uses.
\<close>

datatype token =
    TOKENIZER_STRING | TOKENIZER_NUMBER | TOKENIZER_LEFTPAREN | TOKENIZER_RIGHTPAREN
  | TOKENIZER_INTVAR | TOKENIZER_STRINGVAR
  | TOKENIZER_PEEK | TOKENIZER_ABS | TOKENIZER_INT | TOKENIZER_SGN
  | TOKENIZER_LEN | TOKENIZER_CODE | TOKENIZER_VAL
  | TOKENIZER_LEFTSTR | TOKENIZER_RIGHTSTR | TOKENIZER_MIDSTR | TOKENIZER_CHRSTR
  | TOKENIZER_ASTR | TOKENIZER_SLASH | TOKENIZER_MOD
  | TOKENIZER_PLUS | TOKENIZER_MINUS | TOKENIZER_AND | TOKENIZER_OR
  | TOKENIZER_LT | TOKENIZER_GT | TOKENIZER_EQ | TOKENIZER_NE | TOKENIZER_LE | TOKENIZER_GE
  | TOKENIZER_CR | TOKENIZER_ENDOFINPUT
  | TOKENIZER_COMMA | TOKENIZER_SEMICOLON | TOKENIZER_TAB
  | TOKENIZER_LET | TOKENIZER_PRINT | TOKENIZER_IF | TOKENIZER_THEN | TOKENIZER_ELSE
  | TOKENIZER_GO | TOKENIZER_TO | TOKENIZER_SUB | TOKENIZER_RETURN
  | TOKENIZER_FOR | TOKENIZER_STEP | TOKENIZER_NEXT
  | TOKENIZER_POKE | TOKENIZER_STOP | TOKENIZER_REM | TOKENIZER_DATA
  | TOKENIZER_RANDOMIZE | TOKENIZER_OPTION | TOKENIZER_BASE
  | TOKENIZER_INPUT | TOKENIZER_RESTORE

record lexeme =
  kind :: token
  numv :: int
  varv :: int
  strv :: "byte list"

definition lx :: "token \<Rightarrow> lexeme" where
  "lx t = \<lparr>kind = t, numv = 0, varv = 0, strv = []\<rparr>"

definition lx_num :: "int \<Rightarrow> lexeme" where
  "lx_num n = \<lparr>kind = TOKENIZER_NUMBER, numv = n, varv = 0, strv = []\<rparr>"

definition lx_intvar :: "int \<Rightarrow> lexeme" where
  "lx_intvar v = \<lparr>kind = TOKENIZER_INTVAR, numv = 0, varv = v, strv = []\<rparr>"

definition lx_stringvar :: "int \<Rightarrow> lexeme" where
  "lx_stringvar v = \<lparr>kind = TOKENIZER_STRINGVAR, numv = 0, varv = v, strv = []\<rparr>"

definition lx_string :: "byte list \<Rightarrow> lexeme" where
  "lx_string bs = \<lparr>kind = TOKENIZER_STRING, numv = 0, varv = 0, strv = bs\<rparr>"

text \<open>\<open>struct for_state\<close>.\<close>

record for_state =
  line_after_for :: int
  for_variable :: int
  to :: int
  step :: int

text \<open>
  The globals of \<open>ubasic.c\<close>, on top of the memory above. \<open>line_index\<close> is the linked
  list from \<open>line_index_head\<close>, in list order. \<open>value_t\<close>, \<open>var_t\<close> and \<open>line_t\<close> are
  declared in \<open>ubasic.h\<close>, which is not among the sources; they are integers here, and
  the arithmetic on \<open>value_t\<close> wraps (\<open>wrap_value\<close> below).
  \<open>stringflag\<close> is the value of the macro \<open>STRINGFLAG\<close>, declared in a header that is not
  among the sources either: it is a field that no operation changes, so every result
  holds for whatever value the header gives it. \<open>peek_function\<close> is the host's hook
  (NULL unless \<open>ubasic_init_peek_poke\<close> installed one), and \<open>memcmp\<close> is the C
  library's function, applied to the two byte ranges it is given.
\<close>

record interp = mem +
  program :: "lexeme list"
  tpos :: nat
  gosub_stack :: "int list"
  gosub_stack_ptr :: int
  for_stack :: "for_state list"
  for_stack_ptr :: int
  line_index :: "(int \<times> nat) list"
  variables :: "int list"
  strings :: "ptr list"
  ended :: bool
  line_num :: int
  stringflag :: int
  peek_function :: "(int \<Rightarrow> int) option"
  memcmp :: "byte list \<Rightarrow> byte list \<Rightarrow> int"

definition MAX_GOSUB_STACK_DEPTH :: int where
  "MAX_GOSUB_STACK_DEPTH = 10"

definition MAX_FOR_STACK_DEPTH :: int where
  "MAX_FOR_STACK_DEPTH = 4"

text \<open>\<open>#define MAX_VARNUM 26 * 11\<close>: both the size of \<open>variables\<close> and the bound of the guards.\<close>

definition MAX_VARNUM :: int where
  "MAX_VARNUM = 26 * 11"

definition MAX_STRING :: int where
  "MAX_STRING = 26"

definition cur :: "interp \<Rightarrow> lexeme" where
  "cur s = (if tpos s < length (program s) then program s ! tpos s else lx TOKENIZER_ENDOFINPUT)"

definition tokenizer_token :: "interp \<Rightarrow> token" where
  "tokenizer_token s = kind (cur s)"

definition tokenizer_finished :: "interp \<Rightarrow> bool" where
  "tokenizer_finished s = (tokenizer_token s = TOKENIZER_ENDOFINPUT)"

definition tokenizer_next :: "interp \<Rightarrow> interp" where
  "tokenizer_next s = (if tokenizer_finished s then s else s\<lparr>tpos := tpos s + 1\<rparr>)"

definition tokenizer_num :: "interp \<Rightarrow> int" where
  "tokenizer_num s = numv (cur s)"

definition tokenizer_variable_num :: "interp \<Rightarrow> int" where
  "tokenizer_variable_num s = varv (cur s)"

definition tokenizer_string :: "interp \<Rightarrow> byte list" where
  "tokenizer_string s = strv (cur s)"

definition tokenizer_string_len :: "interp \<Rightarrow> int" where
  "tokenizer_string_len s = int (length (strv (cur s)))"

definition tokenizer_pos :: "interp \<Rightarrow> nat" where
  "tokenizer_pos s = tpos s"

definition tokenizer_goto :: "nat \<Rightarrow> interp \<Rightarrow> interp" where
  "tokenizer_goto p s = s\<lparr>tpos := p\<rparr>"

definition tokenizer_init :: "interp \<Rightarrow> interp" where
  "tokenizer_init s = s\<lparr>tpos := 0\<rparr>"

text \<open>\<open>accept_tok\<close>: exit on any other token, else advance.\<close>

definition accept_tok :: "token \<Rightarrow> interp \<Rightarrow> error + interp" where
  "accept_tok t s = (if t \<noteq> tokenizer_token s then Inl TokenMismatch else Inr (tokenizer_next s))"

definition accept_either :: "token \<Rightarrow> token \<Rightarrow> interp \<Rightarrow> error + (token \<times> interp)" where
  "accept_either tok1 tok2 s =
     (let t = tokenizer_token s in
      bindE (if t = tok2 then accept_tok tok2 s else accept_tok tok1 s) (\<lambda>s1. Inr (t, s1)))"

definition typecheck_int :: "typevalue \<Rightarrow> error + unit" where
  "typecheck_int v = (if type v \<noteq> TYPE_INTEGER then Inl BadType else Inr ())"

definition typecheck_string :: "typevalue \<Rightarrow> error + unit" where
  "typecheck_string v = (if type v \<noteq> TYPE_STRING then Inl BadType else Inr ())"

definition typecheck_same :: "typevalue \<Rightarrow> typevalue \<Rightarrow> error + unit" where
  "typecheck_same l r = (if type l \<noteq> type r then Inl BadType else Inr ())"

section \<open>The variable store\<close>

text \<open>Reading and writing a C array of known size.\<close>

definition arr_get :: "'a list \<Rightarrow> int \<Rightarrow> error + 'a" where
  "arr_get xs i = (if 0 \<le> i \<and> i < int (length xs) then Inr (xs ! nat i) else Inl OutOfBounds)"

definition arr_set :: "'a list \<Rightarrow> int \<Rightarrow> 'a \<Rightarrow> error + 'a list" where
  "arr_set xs i v = (if 0 \<le> i \<and> i < int (length xs) then Inr (xs[nat i := v]) else Inl OutOfBounds)"

text \<open>\<open>malloc\<close> (NULL once \<open>heap_cap\<close> blocks were handed out) and \<open>free\<close>.\<close>

definition malloc :: "byte list \<Rightarrow> interp \<Rightarrow> (nat \<times> interp) option" where
  "malloc blk s =
     (if length (heap s) < heap_cap s
      then Some (length (heap s), s\<lparr>heap := heap s @ [Some blk]\<rparr>)
      else None)"

definition free :: "ptr \<Rightarrow> interp \<Rightarrow> error + interp" where
  "free p s =
     (case p of
        Heap b \<Rightarrow>
          (if b < length (heap s) \<and> heap s ! b \<noteq> None
           then Inr (s\<lparr>heap := (heap s)[b := None]\<rparr>)
           else Inl UseAfterFree)
      | _ \<Rightarrow> Inl OutOfBounds)"

text \<open>
  \<open>string_save(p)\<close>: \<open>malloc(*p + 1)\<close>, then \<open>memcpy(b, p, *p + 1)\<close>. The length byte
  is read before the allocation and the bytes after it.
\<close>

definition string_save :: "ptr \<Rightarrow> interp \<Rightarrow> error + (ptr \<times> interp)" where
  "string_save p s =
     bindE (rd s p 0) (\<lambda>b.
       case malloc (replicate (nat (uint b + 1)) 0) s of
         None \<Rightarrow> Inl OutOfMemory
       | Some (a, s1) \<Rightarrow>
           bindE (rd_bytes s1 p 0 (uint b + 1)) (\<lambda>bs.
             Inr (Heap a, s1\<lparr>heap := (heap s1)[a := Some bs]\<rparr>)))"

definition ubasic_set_variable :: "int \<Rightarrow> typevalue \<Rightarrow> interp \<Rightarrow> error + interp" where
  "ubasic_set_variable varnum v s =
     (if varnum AND stringflag s \<noteq> 0 then
        bindE (typecheck_string v) (\<lambda>_.
          let varnum1 = varnum AND NOT (stringflag s) in
          bindE (arr_get (strings s) varnum1) (\<lambda>old.
            bindE (if old \<noteq> Nullstr then free old s else Inr s) (\<lambda>s1.
              bindE (d_p v) (\<lambda>p.
                bindE (string_save p s1) (\<lambda>(q, s2).
                  bindE (arr_set (strings s2) varnum1 q) (\<lambda>strs.
                    Inr (s2\<lparr>strings := strs\<rparr>)))))))
      else
        bindE (typecheck_int v) (\<lambda>_.
          if varnum \<ge> 0 \<and> varnum \<le> MAX_VARNUM then
            bindE (d_i v) (\<lambda>i.
              bindE (arr_set (variables s) varnum i) (\<lambda>vars. Inr (s\<lparr>variables := vars\<rparr>)))
          else Inl Badsw))"

definition ubasic_get_variable :: "int \<Rightarrow> interp \<Rightarrow> error + typevalue" where
  "ubasic_get_variable varnum s =
     (if varnum AND stringflag s \<noteq> 0 then
        bindE (arr_get (strings s) (varnum AND NOT (stringflag s))) (\<lambda>p. Inr (TStr p))
      else if varnum \<ge> 0 \<and> varnum \<le> MAX_VARNUM then
        bindE (arr_get (variables s) varnum) (\<lambda>i. Inr (TInt i))
      else Inl Badv)"

section \<open>The C library's memcmp\<close>

text \<open>
  The C standard fixes only the sign of the result of \<open>memcmp\<close>: negative, zero or
  positive as the first range is less than, equal to or greater than the second, bytes
  compared as \<open>unsigned char\<close>. \<open>memcmp_diff\<close> returns the difference of the first two
  bytes that differ, as the portable C implementations do (musl, newlib, the generic
  glibc loop); \<open>memcmp_sign\<close> returns only -1, 0 or 1.
\<close>

fun memcmp_diff :: "byte list \<Rightarrow> byte list \<Rightarrow> int" where
  "memcmp_diff (x # xs) (y # ys) = (if x = y then memcmp_diff xs ys else uint x - uint y)"
| "memcmp_diff xs ys = 0"

definition memcmp_sign :: "byte list \<Rightarrow> byte list \<Rightarrow> int" where
  "memcmp_sign xs ys = sgn (memcmp_diff xs ys)"

definition memcmp_conforms :: "(byte list \<Rightarrow> byte list \<Rightarrow> int) \<Rightarrow> bool" where
  "memcmp_conforms f = (\<forall>xs ys. sgn (f xs ys) = sgn (memcmp_diff xs ys))"

section \<open>The expression evaluator\<close>

text \<open>
  Modelled from the spec: \<open>value_t\<close> is declared in \<open>ubasic.h\<close>, which is not among the
  sources; the spec calls it a fixed-width signed integer. It is taken as C's \<open>int\<close> of
  32 bits in two's complement: values are integers, and \<open>wrap_value\<close> brings the
  result of each arithmetic operation back into \<open>- 2^31 .. 2^31 - 1\<close>, as the compiled
  code does.
\<close>

definition wrap_value :: "int \<Rightarrow> int" where
  "wrap_value x = (x + 2147483648) mod 4294967296 - 2147483648"

text \<open>C's \<open>/\<close> and \<open>%\<close> on \<open>int\<close> truncate towards zero.\<close>

definition c_div :: "int \<Rightarrow> int \<Rightarrow> int" where
  "c_div a b = sgn a * sgn b * (\<bar>a\<bar> div \<bar>b\<bar>)"

definition c_mod :: "int \<Rightarrow> int \<Rightarrow> int" where
  "c_mod a b = a - b * c_div a b"

text \<open>
  Modelled from the spec: the macros \<open>TOKENIZER_NUMEXP\<close> and \<open>TOKENIZER_STRINGEXP\<close> of
  \<open>tokenizer.h\<close>, which is not among the sources, are the tokens that start an integer
  and a string expression. In \<open>factor\<close> they are asked only once the literal, bracket
  and variable tokens are excluded, where they tell the integer functions from the
  string functions.
\<close>

definition TOKENIZER_NUMEXP :: "token \<Rightarrow> bool" where
  "TOKENIZER_NUMEXP t =
     (t \<in> {TOKENIZER_NUMBER, TOKENIZER_INTVAR, TOKENIZER_PEEK, TOKENIZER_ABS, TOKENIZER_INT,
           TOKENIZER_SGN, TOKENIZER_LEN, TOKENIZER_CODE, TOKENIZER_VAL})"

definition TOKENIZER_STRINGEXP :: "token \<Rightarrow> bool" where
  "TOKENIZER_STRINGEXP t =
     (t \<in> {TOKENIZER_STRING, TOKENIZER_STRINGVAR, TOKENIZER_LEFTSTR, TOKENIZER_RIGHTSTR,
           TOKENIZER_MIDSTR, TOKENIZER_CHRSTR})"

text \<open>
  \<open>string_val\<close>: \<open>l\<close> is a \<open>uint8_t\<close> and \<open>l--\<close> wraps; the loop runs \<open>l\<close> times from
  index \<open>i\<close> of the buffer.
\<close>

fun string_val_loop :: "interp \<Rightarrow> ptr \<Rightarrow> int \<Rightarrow> nat \<Rightarrow> int \<Rightarrow> error + int" where
  "string_val_loop s p i 0 n = Inr n"
| "string_val_loop s p i (Suc l) n =
     bindE (rd s p i) (\<lambda>c.
       if \<not> (48 \<le> uint c \<and> uint c \<le> 57) then Inl BadType
       else string_val_loop s p (i + 1) l (wrap_value (10 * n + uint c - 48)))"

definition string_val :: "ptr \<Rightarrow> interp \<Rightarrow> error + int" where
  "string_val p s =
     bindE (rd s p 0) (\<lambda>l0.
       bindE (rd s p 1) (\<lambda>c.
         let neg = (c = 45);
             i = (if neg then 2 else 1);
             l = (if neg then l0 - 1 else l0)
         in if l = 0 then Inl BadType
            else bindE (string_val_loop s p i (unat l) 0) (\<lambda>n.
                   Inr (if neg then wrap_value (- n) else n))))"

text \<open>
  The string branch of \<open>+\<close> in \<open>expr\<close>: \<open>l\<close> is a \<open>uint8_t\<close>, the sum passed to
  \<open>string_temp\<close> is an \<open>int\<close>, and the second length is read again for the last
  \<open>memcpy\<close>.
\<close>

definition expr_plus_string :: "ptr \<Rightarrow> ptr \<Rightarrow> interp \<Rightarrow> error + (ptr \<times> interp)" where
  "expr_plus_string vp t2p s =
     bindE (rd s vp 0) (\<lambda>l.
       bindE (rd s t2p 0) (\<lambda>l2.
         bindE (string_temp (uint l + uint l2) s) (\<lambda>(p, s1).
           bindE (memcpy_arena (p + 1) vp 1 (uint l) s1) (\<lambda>s2.
             bindE (rd s2 t2p 0) (\<lambda>l2'.
               bindE (memcpy_arena (p + uint l + 1) t2p 1 (uint l2') s2) (\<lambda>s3.
                 Inr (Arena p, s3)))))))"

text \<open>
  The string branch of \<open>relation\<close>: the three-way value \<open>n\<close> and the test the operator
  makes of it.
\<close>

definition relation_string_n :: "ptr \<Rightarrow> ptr \<Rightarrow> interp \<Rightarrow> error + int" where
  "relation_string_n p1 p2 s =
     bindE (rd s p1 0) (\<lambda>l1.
       bindE (rd s p2 0) (\<lambda>l2.
         let n = (if uint l2 < uint l1 then uint l2 else uint l1) in
         bindE (rd_bytes s p1 1 n) (\<lambda>xs.
           bindE (rd_bytes s p2 1 n) (\<lambda>ys.
             let c = memcmp s xs ys in
             Inr (if c = 0
                  then (if uint l1 > uint l2 then 1 else if uint l1 < uint l2 then - 1 else c)
                  else c)))))"

definition relation_string_test :: "token \<Rightarrow> int \<Rightarrow> int" where
  "relation_string_test op n =
     (if op = TOKENIZER_LT then (if n = - 1 then 1 else 0)
      else if op = TOKENIZER_GT then (if n = 1 then 1 else 0)
      else if op = TOKENIZER_EQ then (if n = 0 then 1 else 0)
      else if op = TOKENIZER_LE then (if n \<noteq> 1 then 1 else 0)
      else if op = TOKENIZER_GE then (if n \<noteq> - 1 then 1 else 0)
      else if op = TOKENIZER_NE then (if n \<noteq> 0 then 1 else 0)
      else n)"

definition relation_int_test :: "token \<Rightarrow> int \<Rightarrow> int \<Rightarrow> int" where
  "relation_int_test op a b =
     (if op = TOKENIZER_LT then (if a < b then 1 else 0)
      else if op = TOKENIZER_GT then (if a > b then 1 else 0)
      else if op = TOKENIZER_EQ then (if a = b then 1 else 0)
      else if op = TOKENIZER_LE then (if a \<le> b then 1 else 0)
      else if op = TOKENIZER_GE then (if a \<ge> b then 1 else 0)
      else if op = TOKENIZER_NE then (if a \<noteq> b then 1 else 0)
      else a)"

type_synonym 'a res = "error + ('a \<times> interp)"

text \<open>
  \<open>funcexpr(t, f)\<close> after its opening bracket: one \<open>expr\<close> per character of the format
  string, a comma between two arguments. \<open>ev\<close> is \<open>expr\<close>.
\<close>

primrec funcexpr_args :: "(interp \<Rightarrow> typevalue res) \<Rightarrow> vtype list \<Rightarrow> interp \<Rightarrow> (typevalue list) res" where
  "funcexpr_args ev [] s = Inr ([], s)"
| "funcexpr_args ev (c # cs) s =
     bindE (ev s) (\<lambda>(v, s1).
       if c \<noteq> type v then Inl BadType
       else bindE (if cs \<noteq> [] then accept_tok TOKENIZER_COMMA s1 else Inr s1) (\<lambda>s2.
              bindE (funcexpr_args ev cs s2) (\<lambda>(vs, s3). Inr (v # vs, s3))))"

definition funcexpr :: "(interp \<Rightarrow> typevalue res) \<Rightarrow> vtype list \<Rightarrow> interp \<Rightarrow> (typevalue list) res" where
  "funcexpr ev f s =
     bindE (accept_tok TOKENIZER_LEFTPAREN s) (\<lambda>s1.
       bindE (funcexpr_args ev f s1) (\<lambda>(args, s2).
         bindE (accept_tok TOKENIZER_RIGHTPAREN s2) (\<lambda>s3. Inr (args, s3))))"

definition varfactor :: "interp \<Rightarrow> typevalue res" where
  "varfactor s =
     bindE (ubasic_get_variable (tokenizer_variable_num s) s) (\<lambda>v.
       bindE (accept_either TOKENIZER_INTVAR TOKENIZER_STRINGVAR s) (\<lambda>(t, s1). Inr (v, s1)))"

text \<open>The integer functions of \<open>factor\<close>, after \<open>accept_tok(t)\<close>.\<close>

definition factor_numexp :: "(interp \<Rightarrow> typevalue res) \<Rightarrow> token \<Rightarrow> interp \<Rightarrow> typevalue res" where
  "factor_numexp ev t s =
     (if t = TOKENIZER_PEEK then
        bindE (funcexpr ev [TYPE_INTEGER] s) (\<lambda>(arg, s1).
          bindE (d_i (arg ! 0)) (\<lambda>a.
            case peek_function s1 of None \<Rightarrow> Inl NullCall
            | Some pk \<Rightarrow> Inr (TInt (pk a), s1)))
      else if t = TOKENIZER_ABS then
        bindE (funcexpr ev [TYPE_INTEGER] s) (\<lambda>(arg, s1).
          bindE (d_i (arg ! 0)) (\<lambda>a. Inr (TInt (if a < 0 then wrap_value (- a) else a), s1)))
      else if t = TOKENIZER_INT then
        bindE (funcexpr ev [TYPE_INTEGER] s) (\<lambda>(arg, s1).
          bindE (d_i (arg ! 0)) (\<lambda>a. Inr (TInt a, s1)))
      else if t = TOKENIZER_SGN then
        bindE (funcexpr ev [TYPE_INTEGER] s) (\<lambda>(arg, s1).
          bindE (d_i (arg ! 0)) (\<lambda>a.
            let a1 = (if a > 1 then 1 else a);
                a2 = (if a1 < 0 then - 1 else a1)
            in Inr (TInt a2, s1)))
      else if t = TOKENIZER_LEN then
        bindE (funcexpr ev [TYPE_STRING] s) (\<lambda>(arg, s1).
          bindE (d_p (arg ! 0)) (\<lambda>p.
            bindE (rd s1 p 0) (\<lambda>l. Inr (TInt (uint l), s1))))
      else if t = TOKENIZER_CODE then
        bindE (funcexpr ev [TYPE_STRING] s) (\<lambda>(arg, s1).
          bindE (d_p (arg ! 0)) (\<lambda>p.
            bindE (rd s1 p 0) (\<lambda>l.
              if l \<noteq> 0 then bindE (rd s1 p 1) (\<lambda>c. Inr (TInt (uint c), s1))
              else Inr (TInt 0, s1))))
      else if t = TOKENIZER_VAL then
        bindE (funcexpr ev [TYPE_STRING] s) (\<lambda>(arg, s1).
          bindE (d_p (arg ! 0)) (\<lambda>p.
            bindE (string_val p s1) (\<lambda>n. Inr (TInt n, s1))))
      else Inl Syntax)"

text \<open>The string functions of \<open>factor\<close>, after \<open>accept_tok(t)\<close>.\<close>

definition factor_stringexp :: "(interp \<Rightarrow> typevalue res) \<Rightarrow> token \<Rightarrow> interp \<Rightarrow> typevalue res" where
  "factor_stringexp ev t s =
     (if t = TOKENIZER_LEFTSTR then
        bindE (funcexpr ev [TYPE_STRING, TYPE_INTEGER] s) (\<lambda>(arg, s1).
          bindE (d_p (arg ! 0)) (\<lambda>p.
            bindE (d_i (arg ! 1)) (\<lambda>n. string_cut p 1 n s1)))
      else if t = TOKENIZER_RIGHTSTR then
        bindE (funcexpr ev [TYPE_STRING, TYPE_INTEGER] s) (\<lambda>(arg, s1).
          bindE (d_p (arg ! 0)) (\<lambda>p.
            bindE (d_i (arg ! 1)) (\<lambda>n. string_cut_r p n s1)))
      else if t = TOKENIZER_MIDSTR then
        bindE (funcexpr ev [TYPE_STRING, TYPE_INTEGER, TYPE_INTEGER] s) (\<lambda>(arg, s1).
          bindE (d_p (arg ! 0)) (\<lambda>p.
            bindE (d_i (arg ! 1)) (\<lambda>l.
              bindE (d_i (arg ! 2)) (\<lambda>n. string_cut p l n s1))))
      else if t = TOKENIZER_CHRSTR then
        bindE (funcexpr ev [TYPE_INTEGER] s) (\<lambda>(arg, s1).
          bindE (d_i (arg ! 0)) (\<lambda>c.
            bindE (string_temp 2 s1) (\<lambda>(q, s2).
              bindE (wr_arena (q + 1) [word_of_int c] s2) (\<lambda>s3. Inr (TStr (Arena q), s3)))))
      else Inl Syntax)"

text \<open>
  \<open>factor\<close>, \<open>term\<close> and \<open>expr\<close> call each other, and \<open>term\<close> and \<open>expr\<close> loop while an
  operator follows. The first argument bounds the depth of the calls and the number of
  loop rounds together; when it reaches 0 the result is \<open>OutOfFuel\<close>.
\<close>

fun factor :: "nat \<Rightarrow> interp \<Rightarrow> typevalue res"
  and term_loop :: "nat \<Rightarrow> typevalue \<Rightarrow> interp \<Rightarrow> typevalue res"
  and term_b :: "nat \<Rightarrow> interp \<Rightarrow> typevalue res"
  and expr_loop :: "nat \<Rightarrow> typevalue \<Rightarrow> interp \<Rightarrow> typevalue res"
  and expr :: "nat \<Rightarrow> interp \<Rightarrow> typevalue res"
where
  "factor 0 = (\<lambda>s. Inl OutOfFuel)"
| "factor (Suc k) = (\<lambda>s.
     let t = tokenizer_token s in
     if t = TOKENIZER_STRING then
       let len = tokenizer_string_len s in
       bindE (string_temp len s) (\<lambda>(q, s1).
         bindE (wr_arena (q + 1) (tokenizer_string s1) s1) (\<lambda>s2.
           bindE (accept_tok TOKENIZER_STRING s2) (\<lambda>s3. Inr (TStr (Arena q), s3))))
     else if t = TOKENIZER_NUMBER then
       bindE (accept_tok TOKENIZER_NUMBER s) (\<lambda>s1. Inr (TInt (tokenizer_num s), s1))
     else if t = TOKENIZER_LEFTPAREN then
       bindE (accept_tok TOKENIZER_LEFTPAREN s) (\<lambda>s1.
         bindE (expr k s1) (\<lambda>(v, s2).
           bindE (accept_tok TOKENIZER_RIGHTPAREN s2) (\<lambda>s3. Inr (v, s3))))
     else if t = TOKENIZER_INTVAR \<or> t = TOKENIZER_STRINGVAR then varfactor s
     else if TOKENIZER_NUMEXP t then
       bindE (accept_tok t s) (\<lambda>s1.
         bindE (factor_numexp (expr k) t s1) (\<lambda>(v, s2). Inr (TV TYPE_INTEGER (d v), s2)))
     else if TOKENIZER_STRINGEXP t then
       bindE (accept_tok t s) (\<lambda>s1. factor_stringexp (expr k) t s1)
     else Inl Syntax)"
| "term_loop 0 = (\<lambda>v s. Inl OutOfFuel)"
| "term_loop (Suc k) = (\<lambda>v s.
     let op = tokenizer_token s in
     if op = TOKENIZER_ASTR \<or> op = TOKENIZER_SLASH \<or> op = TOKENIZER_MOD then
       bindE (factor k (tokenizer_next s)) (\<lambda>(f2, s1).
         bindE (typecheck_int v) (\<lambda>_.
           bindE (typecheck_int f2) (\<lambda>_.
             bindE (d_i v) (\<lambda>a.
               bindE (d_i f2) (\<lambda>b.
                 if op = TOKENIZER_ASTR then term_loop k (TInt (wrap_value (a * b))) s1
                 else if b = 0 then Inl DivZero
                 else if op = TOKENIZER_SLASH then term_loop k (TInt (wrap_value (c_div a b))) s1
                 else term_loop k (TInt (wrap_value (c_mod a b))) s1)))))
     else Inr (v, s))"
| "term_b 0 = (\<lambda>s. Inl OutOfFuel)"
| "term_b (Suc k) = (\<lambda>s. bindE (factor k s) (\<lambda>(v, s1). term_loop k v s1))"
| "expr_loop 0 = (\<lambda>v s. Inl OutOfFuel)"
| "expr_loop (Suc k) = (\<lambda>v s.
     let op = tokenizer_token s in
     if op = TOKENIZER_PLUS \<or> op = TOKENIZER_MINUS \<or> op = TOKENIZER_AND \<or> op = TOKENIZER_OR then
       bindE (term_b k (tokenizer_next s)) (\<lambda>(t2, s1).
         bindE (if op \<noteq> TOKENIZER_PLUS then typecheck_int v else Inr ()) (\<lambda>_.
           bindE (typecheck_same v t2) (\<lambda>_.
             if op = TOKENIZER_PLUS \<and> type v \<noteq> TYPE_INTEGER then
               bindE (d_p v) (\<lambda>vp.
                 bindE (d_p t2) (\<lambda>t2p.
                   bindE (expr_plus_string vp t2p s1) (\<lambda>(p, s2).
                     expr_loop k (TV (type v) (DP p)) s2)))
             else
               bindE (d_i v) (\<lambda>a.
                 bindE (d_i t2) (\<lambda>b.
                   expr_loop k
                     (TV (type v)
                        (DI (if op = TOKENIZER_PLUS then wrap_value (a + b)
                             else if op = TOKENIZER_MINUS then wrap_value (a - b)
                             else if op = TOKENIZER_AND then a AND b
                             else a OR b))) s1)))))
     else Inr (v, s))"
| "expr 0 = (\<lambda>s. Inl OutOfFuel)"
| "expr (Suc k) = (\<lambda>s. bindE (term_b k s) (\<lambda>(v, s1). expr_loop k v s1))"

text \<open>\<open>relation\<close>: its loop, then \<open>r1->type = TYPE_INTEGER\<close> whatever \<open>d\<close> holds.\<close>

fun relation_loop :: "nat \<Rightarrow> typevalue \<Rightarrow> interp \<Rightarrow> typevalue res" where
  "relation_loop 0 r1 s = Inl OutOfFuel"
| "relation_loop (Suc k) r1 s =
     (let op = tokenizer_token s in
      if op = TOKENIZER_LT \<or> op = TOKENIZER_GT \<or> op = TOKENIZER_EQ
         \<or> op = TOKENIZER_NE \<or> op = TOKENIZER_LE \<or> op = TOKENIZER_GE then
        bindE (expr k (tokenizer_next s)) (\<lambda>(r2, s1).
          bindE (typecheck_same r1 r2) (\<lambda>_.
            if type r1 = TYPE_INTEGER then
              bindE (d_i r1) (\<lambda>a.
                bindE (d_i r2) (\<lambda>b.
                  relation_loop k (TV (type r1) (DI (relation_int_test op a b))) s1))
            else
              bindE (d_p r1) (\<lambda>p1.
                bindE (d_p r2) (\<lambda>p2.
                  bindE (relation_string_n p1 p2 s1) (\<lambda>n.
                    relation_loop k (TV (type r1) (DI (relation_string_test op n))) s1)))))
      else Inr (r1, s))"

definition relation :: "nat \<Rightarrow> interp \<Rightarrow> typevalue res" where
  "relation k s =
     bindE (expr k s) (\<lambda>(r1, s1).
       bindE (relation_loop k r1 s1) (\<lambda>(r, s2). Inr (TV TYPE_INTEGER (d r), s2)))"

definition intexpr :: "nat \<Rightarrow> interp \<Rightarrow> int res" where
  "intexpr k s =
     bindE (expr k s) (\<lambda>(t, s1).
       bindE (typecheck_int t) (\<lambda>_. bindE (d_i t) (\<lambda>i. Inr (i, s1))))"

definition stringexpr :: "nat \<Rightarrow> interp \<Rightarrow> ptr res" where
  "stringexpr k s =
     bindE (expr k s) (\<lambda>(t, s1).
       bindE (typecheck_string t) (\<lambda>_. bindE (d_p t) (\<lambda>p. Inr (p, s1))))"

section \<open>The line index and jumps\<close>

text \<open>\<open>index_find\<close>: the position of the first entry with the line number, or NULL.\<close>

fun index_find_in :: "(int \<times> nat) list \<Rightarrow> int \<Rightarrow> nat option" where
  "index_find_in [] linenum = None"
| "index_find_in ((n, pos) # lidx) linenum =
     (if n \<noteq> linenum then index_find_in lidx linenum else Some pos)"

definition index_find :: "int \<Rightarrow> interp \<Rightarrow> nat option" where
  "index_find linenum s = index_find_in (line_index s) linenum"

text \<open>\<open>index_add\<close>: nothing if the line number has an entry, else a new last entry.\<close>

definition index_add :: "int \<Rightarrow> nat \<Rightarrow> interp \<Rightarrow> interp" where
  "index_add linenum sourcepos s =
     (if line_index s \<noteq> [] \<and> index_find linenum s \<noteq> None then s
      else s\<lparr>line_index := line_index s @ [(linenum, sourcepos)]\<rparr>)"

text \<open>
  \<open>jump_linenum_slow\<close>: the innermost loop steps to the next end of line or end of
  input, the middle loop repeats that until a number token follows, the outer loop
  until the number is the wanted one. Each of the three takes the bound on its rounds;
  at the end of input \<open>tokenizer_next\<close> does not move and the C loops never leave.
\<close>

fun jls_inner :: "nat \<Rightarrow> interp \<Rightarrow> error + interp" where
  "jls_inner 0 s = Inl OutOfFuel"
| "jls_inner (Suc k) s =
     (let s1 = tokenizer_next s in
      if tokenizer_token s1 \<noteq> TOKENIZER_CR \<and> tokenizer_token s1 \<noteq> TOKENIZER_ENDOFINPUT
      then jls_inner k s1 else Inr s1)"

fun jls_middle :: "nat \<Rightarrow> interp \<Rightarrow> error + interp" where
  "jls_middle 0 s = Inl OutOfFuel"
| "jls_middle (Suc k) s =
     bindE (jls_inner k s) (\<lambda>s1.
       let s2 = (if tokenizer_token s1 = TOKENIZER_CR then tokenizer_next s1 else s1) in
       if tokenizer_token s2 \<noteq> TOKENIZER_NUMBER then jls_middle k s2 else Inr s2)"

fun jls_outer :: "nat \<Rightarrow> int \<Rightarrow> interp \<Rightarrow> error + interp" where
  "jls_outer 0 linenum s = Inl OutOfFuel"
| "jls_outer (Suc k) linenum s =
     (if tokenizer_num s \<noteq> linenum
      then bindE (jls_middle k s) (\<lambda>s1. jls_outer k linenum s1)
      else Inr s)"

definition jump_linenum_slow :: "nat \<Rightarrow> int \<Rightarrow> interp \<Rightarrow> error + interp" where
  "jump_linenum_slow k linenum s = jls_outer k linenum (tokenizer_init s)"

definition jump_linenum :: "nat \<Rightarrow> int \<Rightarrow> interp \<Rightarrow> error + interp" where
  "jump_linenum k linenum s =
     (case index_find linenum s of
        Some pos \<Rightarrow> Inr (tokenizer_goto pos s)
      | None \<Rightarrow> jump_linenum_slow k linenum s)"

section \<open>Statements\<close>

definition go_statement :: "nat \<Rightarrow> interp \<Rightarrow> error + interp" where
  "go_statement k s =
     bindE (accept_tok TOKENIZER_GO s) (\<lambda>s1.
       bindE (accept_either TOKENIZER_TO TOKENIZER_SUB s1) (\<lambda>(t, s2).
         if t = TOKENIZER_TO then
           bindE (intexpr k s2) (\<lambda>(linenum, s3).
             bindE (accept_tok TOKENIZER_CR s3) (\<lambda>s4. jump_linenum k linenum s4))
         else
           bindE (intexpr k s2) (\<lambda>(linenum, s3).
             bindE (accept_tok TOKENIZER_CR s3) (\<lambda>s4.
               if gosub_stack_ptr s4 < MAX_GOSUB_STACK_DEPTH then
                 bindE (arr_set (gosub_stack s4) (gosub_stack_ptr s4) (tokenizer_num s4)) (\<lambda>st.
                   jump_linenum k linenum
                     (s4\<lparr>gosub_stack := st, gosub_stack_ptr := gosub_stack_ptr s4 + 1\<rparr>))
               else Inl ReturnWithoutGosub))))"

definition return_statement :: "nat \<Rightarrow> interp \<Rightarrow> error + interp" where
  "return_statement k s =
     bindE (accept_tok TOKENIZER_RETURN s) (\<lambda>s1.
       if gosub_stack_ptr s1 > 0 then
         let s2 = s1\<lparr>gosub_stack_ptr := gosub_stack_ptr s1 - 1\<rparr> in
         bindE (arr_get (gosub_stack s2) (gosub_stack_ptr s2)) (\<lambda>n. jump_linenum k n s2)
       else Inr s1)"

definition next_statement :: "nat \<Rightarrow> interp \<Rightarrow> error + interp" where
  "next_statement k s =
     bindE (accept_tok TOKENIZER_NEXT s) (\<lambda>s1.
       let var = tokenizer_variable_num s1 in
       bindE (accept_tok TOKENIZER_INTVAR s1) (\<lambda>s2.
         if for_stack_ptr s2 > 0 then
           bindE (arr_get (for_stack s2) (for_stack_ptr s2 - 1)) (\<lambda>fs.
             if var = for_variable fs then
               bindE (ubasic_get_variable var s2) (\<lambda>t.
                 bindE (d_i t) (\<lambda>i.
                   let v1 = wrap_value (i + step fs);
                       t1 = TV (type t) (DI v1)
                   in
                   bindE (ubasic_set_variable var t1 s2) (\<lambda>s3.
                     if (step fs \<ge> 0 \<and> v1 \<le> to fs) \<or> (step fs < 0 \<and> v1 \<ge> to fs)
                     then jump_linenum k (line_after_for fs) s3
                     else accept_tok TOKENIZER_CR (s3\<lparr>for_stack_ptr := for_stack_ptr s3 - 1\<rparr>))))
             else Inl MismatchedNext)
         else Inl MismatchedNext))"

definition for_statement :: "nat \<Rightarrow> interp \<Rightarrow> error + interp" where
  "for_statement k s =
     bindE (accept_tok TOKENIZER_FOR s) (\<lambda>s1.
       let for_var = tokenizer_variable_num s1 in
       bindE (accept_tok TOKENIZER_INTVAR s1) (\<lambda>s2.
         bindE (accept_tok TOKENIZER_EQ s2) (\<lambda>s3.
           bindE (expr k s3) (\<lambda>(t, s4).
             bindE (typecheck_int t) (\<lambda>_.
               bindE (ubasic_set_variable for_var t s4) (\<lambda>s5.
                 bindE (accept_tok TOKENIZER_TO s5) (\<lambda>s6.
                   bindE (intexpr k s6) (\<lambda>(to_v, s7).
                     bindE (if tokenizer_token s7 = TOKENIZER_STEP
                            then bindE (accept_tok TOKENIZER_STEP s7) (\<lambda>s8. intexpr k s8)
                            else Inr (1, s7)) (\<lambda>(step_v, s9).
                       bindE (accept_tok TOKENIZER_CR s9) (\<lambda>s10.
                         if for_stack_ptr s10 < MAX_FOR_STACK_DEPTH then
                           bindE (arr_set (for_stack s10) (for_stack_ptr s10)
                                    \<lparr>line_after_for = tokenizer_num s10, for_variable = for_var,
                                     to = to_v, step = step_v\<rparr>) (\<lambda>st.
                             Inr (s10\<lparr>for_stack := st, for_stack_ptr := for_stack_ptr s10 + 1\<rparr>))
                         else Inr s10))))))))))"

definition let_statement :: "nat \<Rightarrow> interp \<Rightarrow> error + interp" where
  "let_statement k s =
     (let var = tokenizer_variable_num s in
      bindE (accept_either TOKENIZER_INTVAR TOKENIZER_STRINGVAR s) (\<lambda>(t, s1).
        bindE (accept_tok TOKENIZER_EQ s1) (\<lambda>s2.
          bindE (expr k s2) (\<lambda>(v, s3).
            bindE (ubasic_set_variable var v s3) (\<lambda>s4.
              accept_tok TOKENIZER_CR s4)))))"

definition stop_statement :: "interp \<Rightarrow> error + interp" where
  "stop_statement s =
     bindE (accept_tok TOKENIZER_STOP s) (\<lambda>s1.
       bindE (accept_tok TOKENIZER_CR s1) (\<lambda>s2. Inr (s2\<lparr>ended := True\<rparr>)))"

text \<open>
  \<open>statement\<close>: the arena is reset, then the first token selects the handler. The
  handlers that write to the terminal, read a line, call the host or only move the
  tokenizer (PRINT, IF, POKE, REM, DATA, RANDOMIZE, OPTION, INPUT, RESTORE) are the
  argument \<open>other\<close>; the rest is the code above.
\<close>

definition statement :: "nat \<Rightarrow> (interp \<Rightarrow> error + interp) \<Rightarrow> interp \<Rightarrow> error + interp" where
  "statement k other s =
     (let s0 = string_temp_free s;
          token = tokenizer_token s0
      in if token \<in> {TOKENIZER_PRINT, TOKENIZER_IF, TOKENIZER_POKE, TOKENIZER_REM, TOKENIZER_DATA,
                      TOKENIZER_RANDOMIZE, TOKENIZER_OPTION, TOKENIZER_INPUT, TOKENIZER_RESTORE}
         then other s0
         else if token = TOKENIZER_GO then go_statement k s0
         else if token = TOKENIZER_RETURN then return_statement k s0
         else if token = TOKENIZER_FOR then for_statement k s0
         else if token = TOKENIZER_NEXT then next_statement k s0
         else if token = TOKENIZER_STOP then stop_statement s0
         else if token = TOKENIZER_LET then bindE (accept_tok TOKENIZER_LET s0) (let_statement k)
         else if token = TOKENIZER_STRINGVAR \<or> token = TOKENIZER_INTVAR then let_statement k s0
         else Inl Syntax)"

definition line_statement :: "nat \<Rightarrow> (interp \<Rightarrow> error + interp) \<Rightarrow> interp \<Rightarrow> error + interp" where
  "line_statement k other s =
     (let s1 = s\<lparr>line_num := tokenizer_num s\<rparr>;
          s2 = index_add (line_num s1) (tokenizer_pos s1) s1
      in bindE (accept_tok TOKENIZER_NUMBER s2) (statement k other))"

definition ubasic_run :: "nat \<Rightarrow> (interp \<Rightarrow> error + interp) \<Rightarrow> interp \<Rightarrow> error + interp" where
  "ubasic_run k other s = (if tokenizer_finished s then Inr s else line_statement k other s)"

definition ubasic_finished :: "interp \<Rightarrow> bool" where
  "ubasic_finished s = (ended s \<or> tokenizer_finished s)"

section \<open>Initial state\<close>

text \<open>
  The state once the program is loaded and \<open>ubasic_init\<close> has run: the C statics are
  zero, \<open>ubasic_init\<close> empties both stacks and the line index, rewinds the tokenizer and
  points every string slot at \<open>nullstr\<close>. The arguments are the program, the value of
  \<open>STRINGFLAG\<close> and the number of blocks \<open>malloc\<close> can provide.
\<close>

definition ubasic_init :: "lexeme list \<Rightarrow> int \<Rightarrow> nat \<Rightarrow> interp" where
  "ubasic_init prog flag cap =
     \<lparr>heap = [], heap_cap = cap, stringblob = replicate 512 0, nextstr = 0, stackbuf = [],
      program = prog, tpos = 0,
      gosub_stack = replicate 10 0, gosub_stack_ptr = 0,
      for_stack = replicate 4 \<lparr>line_after_for = 0, for_variable = 0, to = 0, step = 0\<rparr>,
      for_stack_ptr = 0,
      line_index = [],
      variables = replicate 286 0, strings = replicate 26 Nullstr,
      ended = False, line_num = 0, stringflag = flag, peek_function = None,
      memcmp = memcmp_diff\<rparr>"

text \<open>A heap holding the one string \<open>ABC\<close>, for LEFT$, RIGHT$ and MID$.\<close>

definition mem_ABC :: mem where
  "mem_ABC = \<lparr>heap = [Some [3, 65, 66, 67]], heap_cap = 8,
              stringblob = replicate 512 0, nextstr = 0, stackbuf = []\<rparr>"

section \<open>Example programs\<close>

text \<open>\<open>10 RETURN\<close> / \<open>20 STOP\<close>.\<close>

definition prog_return :: "lexeme list" where
  "prog_return =
     [lx_num 10, lx TOKENIZER_RETURN, lx TOKENIZER_CR,
      lx_num 20, lx TOKENIZER_STOP, lx TOKENIZER_CR]"

text \<open>\<open>10 GOSUB 100\<close> / \<open>20 STOP\<close> / \<open>100 RETURN\<close>.\<close>

definition lines_gosub :: "lexeme list list" where
  "lines_gosub =
     [[lx_num 10, lx TOKENIZER_GO, lx TOKENIZER_SUB, lx_num 100, lx TOKENIZER_CR],
      [lx_num 20, lx TOKENIZER_STOP, lx TOKENIZER_CR],
      [lx_num 100, lx TOKENIZER_RETURN, lx TOKENIZER_CR]]"

definition prog_gosub :: "lexeme list" where
  "prog_gosub = concat lines_gosub"

text \<open>\<open>10 FOR I = 1 TO 3\<close> / \<open>20 NEXT I\<close>; the variable \<open>I\<close> has number 8.\<close>

definition lines_for :: "lexeme list list" where
  "lines_for =
     [[lx_num 10, lx TOKENIZER_FOR, lx_intvar 8, lx TOKENIZER_EQ, lx_num 1, lx TOKENIZER_TO,
       lx_num 3, lx TOKENIZER_CR],
      [lx_num 20, lx TOKENIZER_NEXT, lx_intvar 8, lx TOKENIZER_CR]]"

definition prog_for :: "lexeme list" where
  "prog_for = concat lines_for"

text \<open>\<open>10 FOR I = 1 TO 7 STEP 2\<close> / \<open>20 NEXT I\<close>.\<close>

definition prog_for_step :: "lexeme list" where
  "prog_for_step =
     [lx_num 10, lx TOKENIZER_FOR, lx_intvar 8, lx TOKENIZER_EQ, lx_num 1, lx TOKENIZER_TO,
      lx_num 7, lx TOKENIZER_STEP, lx_num 2, lx TOKENIZER_CR,
      lx_num 20, lx TOKENIZER_NEXT, lx_intvar 8, lx TOKENIZER_CR]"

text \<open>
  The state of the program \<open>prog_for\<close> on the token NEXT of line 20, with both lines in
  the index, \<open>I = i\<close>, and the one frame \<open>FOR fv = .. TO tov\<close> (step 1, resuming at line
  20).
\<close>

definition state_at_next :: "int \<Rightarrow> int \<Rightarrow> int \<Rightarrow> interp" where
  "state_at_next i fv tov =
     (ubasic_init prog_for 32768 8)
       \<lparr>tpos := 9,
        for_stack := [\<lparr>line_after_for = 20, for_variable = fv, to = tov, step = 1\<rparr>,
                      \<lparr>line_after_for = 0, for_variable = 0, to = 0, step = 0\<rparr>,
                      \<lparr>line_after_for = 0, for_variable = 0, to = 0, step = 0\<rparr>,
                      \<lparr>line_after_for = 0, for_variable = 0, to = 0, step = 0\<rparr>],
        for_stack_ptr := 1,
        line_index := [(10, 0), (20, 8)],
        variables := (replicate 286 0)[8 := i]\<rparr>"



text \<open>The expressions \<open>"A" < "C"\<close> and \<open>"C" <= "A"\<close>.\<close>

definition prog_A_lt_C :: "lexeme list" where
  "prog_A_lt_C = [lx_string [65], lx TOKENIZER_LT, lx_string [67], lx TOKENIZER_CR]"

definition prog_C_le_A :: "lexeme list" where
  "prog_C_le_A = [lx_string [67], lx TOKENIZER_LE, lx_string [65], lx TOKENIZER_CR]"

text \<open>\<open>10 A$ = "HELLO"\<close> / \<open>20 A$ = A$\<close>, with \<open>STRINGFLAG\<close> taken as \<open>0x8000\<close>.\<close>

definition prog_self_assign :: "lexeme list" where
  "prog_self_assign =
     [lx_num 10, lx_stringvar 32768, lx TOKENIZER_EQ, lx_string [72, 69, 76, 76, 79], lx TOKENIZER_CR,
      lx_num 20, lx_stringvar 32768, lx TOKENIZER_EQ, lx_stringvar 32768, lx TOKENIZER_CR]"

text \<open>The arena holding \<open>AAA\<close> at offset 0 and \<open>BB\<close> at offset 4, the cursor at 7.\<close>

definition state_AAA_BB :: interp where
  "state_AAA_BB =
     (ubasic_init [] 32768 8)
       \<lparr>stringblob := [3, 65, 65, 65, 2, 66, 66] @ replicate 505 0, nextstr := 7\<rparr>"

text \<open>A string literal of 127 bytes \<open>+\<close> one of 128 bytes.\<close>

definition prog_concat_255 :: "lexeme list" where
  "prog_concat_255 =
     [lx_string (replicate 127 65), lx TOKENIZER_PLUS, lx_string (replicate 128 66), lx TOKENIZER_CR]"

section \<open>What expression evaluation can change\<close>

text \<open>
  \<open>expr_frame s s'\<close>: \<open>s'\<close> is \<open>s\<close> up to the tokenizer position and the arena. The
  evaluator writes nothing else.
\<close>

definition expr_frame :: "interp \<Rightarrow> interp \<Rightarrow> bool" where
  "expr_frame s s' =
     (heap s' = heap s \<and> heap_cap s' = heap_cap s \<and> stackbuf s' = stackbuf s
      \<and> program s' = program s
      \<and> gosub_stack s' = gosub_stack s \<and> gosub_stack_ptr s' = gosub_stack_ptr s
      \<and> for_stack s' = for_stack s \<and> for_stack_ptr s' = for_stack_ptr s
      \<and> line_index s' = line_index s
      \<and> variables s' = variables s \<and> strings s' = strings s
      \<and> ended s' = ended s \<and> line_num s' = line_num s
      \<and> stringflag s' = stringflag s \<and> peek_function s' = peek_function s
      \<and> memcmp s' = memcmp s)"

text \<open>\<open>tok_frame s s'\<close>: \<open>s'\<close> is \<open>s\<close> up to the tokenizer position.\<close>

definition tok_frame :: "interp \<Rightarrow> interp \<Rightarrow> bool" where
  "tok_frame s s' = (expr_frame s s' \<and> stringblob s' = stringblob s \<and> nextstr s' = nextstr s)"

text \<open>\<open>frames f\<close>: whenever \<open>f\<close> returns a value, it has kept to that.\<close>

definition frames :: "(interp \<Rightarrow> 'a res) \<Rightarrow> bool" where
  "frames f = (\<forall>s v s'. f s = Inr (v, s') \<longrightarrow> expr_frame s s')"

section \<open>Strings in memory\<close>

text \<open>
  \<open>str_at m p bs\<close>: the buffer at \<open>p\<close> is the string \<open>bs\<close>, its length byte followed
  by its bytes. \<open>below_cursor m p n\<close>: a buffer of \<open>n + 1\<close> bytes at \<open>p\<close> does not reach
  into the free part of the arena (it is outside the arena, or ends before \<open>nextstr\<close>),
  as every value of the running statement does.
\<close>

definition str_at :: "interp \<Rightarrow> ptr \<Rightarrow> byte list \<Rightarrow> bool" where
  "str_at m p bs =
     (length bs \<le> 255 \<and> rd_bytes m p 0 (int (length bs) + 1) = Inr (word_of_nat (length bs) # bs))"

definition below_cursor :: "interp \<Rightarrow> ptr \<Rightarrow> nat \<Rightarrow> bool" where
  "below_cursor m p n = (case p of Arena off \<Rightarrow> off + int n + 1 \<le> nextstr m | _ \<Rightarrow> True)"

section \<open>Programs made of numbered lines\<close>

text \<open>
  The program text format of the spec: every line begins with a line number and ends
  with an end-of-line token, and has neither an end-of-line nor an end-of-input token
  before that.
\<close>

definition line_ok :: "lexeme list \<Rightarrow> bool" where
  "line_ok l =
     (2 \<le> length l \<and> kind (hd l) = TOKENIZER_NUMBER \<and> kind (last l) = TOKENIZER_CR
      \<and> list_all (\<lambda>x. kind x \<noteq> TOKENIZER_CR \<and> kind x \<noteq> TOKENIZER_ENDOFINPUT) (butlast l))"

definition lines_ok :: "lexeme list list \<Rightarrow> bool" where
  "lines_ok ls = list_all line_ok ls"

text \<open>The position of the first line numbered \<open>linenum\<close>.\<close>

definition line_pos :: "lexeme list list \<Rightarrow> int \<Rightarrow> nat" where
  "line_pos ls linenum = length (concat (takeWhile (\<lambda>l. numv (hd l) \<noteq> linenum) ls))"

definition has_line :: "lexeme list list \<Rightarrow> int \<Rightarrow> bool" where
  "has_line ls linenum = list_ex (\<lambda>l. numv (hd l) = linenum) ls"

text \<open>
  The line numbers of a program with the positions where its lines start, in program
  order.
\<close>

fun line_table :: "lexeme list list \<Rightarrow> nat \<Rightarrow> (int \<times> nat) list" where
  "line_table [] off = []"
| "line_table (l # ls) off = (numv (hd l), off) # line_table ls (off + length l)"

text \<open>
  \<open>line_statement\<close> is the only caller of \<open>index_add\<close> and passes the number and the
  position of the token it stands on, the first token of a line: every entry of the
  line index is a line's number with the position where that line starts.
\<close>

definition index_sound :: "interp \<Rightarrow> lexeme list list \<Rightarrow> bool" where
  "index_sound s ls = list_all (\<lambda>e. e \<in> set (line_table ls 0)) (line_index s)"

text \<open>
  Where \<open>jump_linenum\<close> leaves the tokenizer: at the indexed position if the line
  number has an entry, else at the first line with that number.
\<close>

definition jump_target :: "interp \<Rightarrow> lexeme list list \<Rightarrow> int \<Rightarrow> nat" where
  "jump_target s ls linenum =
     (case index_find linenum s of Some pos \<Rightarrow> pos | None \<Rightarrow> line_pos ls linenum)"

section \<open>Basic rules\<close>

lemma bindE_Inl [simp]: "bindE (Inl e) f = Inl e"
  by (simp add: bindE_def)

lemma bindE_Inr [simp]: "bindE (Inr x) f = f x"
  by (simp add: bindE_def)

lemma bindE_eq_Inr: "(bindE m f = Inr y) = (\<exists>x. m = Inr x \<and> f x = Inr y)"
  by (cases m) simp_all

lemma tokenizer_next_step:
  "tokenizer_token s \<noteq> TOKENIZER_ENDOFINPUT \<Longrightarrow> tokenizer_next s = s\<lparr>tpos := tpos s + 1\<rparr>"
  by (simp add: tokenizer_next_def tokenizer_finished_def)

section \<open>The evaluator changes only the tokenizer position and the arena\<close>

lemma expr_frame_refl [simp]: "expr_frame s s"
  by (simp add: expr_frame_def)

lemma expr_frame_trans: "expr_frame s s1 \<Longrightarrow> expr_frame s1 s2 \<Longrightarrow> expr_frame s s2"
  by (simp add: expr_frame_def)

lemma frame_wr_arena: "wr_arena off bs s = Inr s' \<Longrightarrow> expr_frame s s'"
  by (auto simp: wr_arena_def expr_frame_def split: if_splits)

lemma frame_memcpy_arena: "memcpy_arena dst src si n s = Inr s' \<Longrightarrow> expr_frame s s'"
  by (auto simp: memcpy_arena_def bindE_eq_Inr dest: frame_wr_arena)

lemma frame_string_temp: "string_temp len s = Inr (q, s') \<Longrightarrow> expr_frame s s'"
  by (auto simp: string_temp_def Let_def bindE_eq_Inr expr_frame_def wr_arena_def split: if_splits)

lemma frame_tokenizer_next [simp]: "expr_frame s (tokenizer_next s)"
  by (simp add: tokenizer_next_def expr_frame_def)

lemma frame_accept_tok: "accept_tok t s = Inr s' \<Longrightarrow> expr_frame s s'"
  by (auto simp: accept_tok_def split: if_splits)

lemma frame_accept_either: "accept_either t1 t2 s = Inr (t, s') \<Longrightarrow> expr_frame s s'"
  by (auto simp: accept_either_def Let_def bindE_eq_Inr dest: frame_accept_tok split: if_splits)

lemma frame_string_cut: "string_cut p l n s = Inr (v, s') \<Longrightarrow> expr_frame s s'"
  by (auto simp: string_cut_def Let_def bindE_eq_Inr split: if_splits
      dest!: frame_string_temp frame_memcpy_arena intro: expr_frame_trans)

lemma frame_string_cut_r: "string_cut_r p r s = Inr (v, s') \<Longrightarrow> expr_frame s s'"
  by (auto simp: string_cut_r_def Let_def bindE_eq_Inr split: if_splits
      dest!: frame_string_temp frame_string_cut)

lemma frame_expr_plus_string: "expr_plus_string vp t2p s = Inr (p, s') \<Longrightarrow> expr_frame s s'"
  by (auto simp: expr_plus_string_def bindE_eq_Inr
      dest!: frame_string_temp frame_memcpy_arena intro: expr_frame_trans)

lemma frame_varfactor: "varfactor s = Inr (v, s') \<Longrightarrow> expr_frame s s'"
  by (auto simp: varfactor_def bindE_eq_Inr dest: frame_accept_either)

lemma framesD: "frames f \<Longrightarrow> f s = Inr (v, s') \<Longrightarrow> expr_frame s s'"
  by (auto simp: frames_def)

lemma frame_funcexpr_args:
  "frames ev \<Longrightarrow> funcexpr_args ev f s = Inr (vs, s') \<Longrightarrow> expr_frame s s'"
proof (induction f arbitrary: s vs s')
  case Nil
  then show ?case by simp
next
  case (Cons c cs)
  from Cons.prems(2) obtain v s1 s2 ws where
    e: "ev s = Inr (v, s1)"
    and a: "(if cs \<noteq> [] then accept_tok TOKENIZER_COMMA s1 else Inr s1) = Inr s2"
    and r: "funcexpr_args ev cs s2 = Inr (ws, s')"
    by (auto simp: bindE_eq_Inr split: if_splits)
  have "expr_frame s s1" using Cons.prems(1) e by (rule framesD)
  moreover have "expr_frame s1 s2" using a by (auto split: if_splits dest: frame_accept_tok)
  moreover have "expr_frame s2 s'" using Cons.IH [OF Cons.prems(1) r] .
  ultimately show ?case by (blast intro: expr_frame_trans)
qed

lemma frame_funcexpr:
  "frames ev \<Longrightarrow> funcexpr ev f s = Inr (vs, s') \<Longrightarrow> expr_frame s s'"
  by (auto simp: funcexpr_def bindE_eq_Inr
      dest!: frame_accept_tok frame_funcexpr_args intro: expr_frame_trans)

lemma frame_factor_numexp:
  "frames ev \<Longrightarrow> factor_numexp ev t s = Inr (v, s') \<Longrightarrow> expr_frame s s'"
  by (auto simp: factor_numexp_def bindE_eq_Inr Let_def split: if_splits option.splits
      dest: frame_funcexpr)

lemma frame_factor_stringexp:
  "frames ev \<Longrightarrow> factor_stringexp ev t s = Inr (v, s') \<Longrightarrow> expr_frame s s'"
  by (auto simp: factor_stringexp_def bindE_eq_Inr split: if_splits
      dest!: frame_funcexpr frame_string_cut frame_string_cut_r frame_string_temp frame_wr_arena
      intro: expr_frame_trans)

lemma tokenizer_next_fields [simp]:
  "heap (tokenizer_next s) = heap s" "heap_cap (tokenizer_next s) = heap_cap s"
  "stackbuf (tokenizer_next s) = stackbuf s" "stringblob (tokenizer_next s) = stringblob s"
  "nextstr (tokenizer_next s) = nextstr s" "program (tokenizer_next s) = program s"
  "gosub_stack (tokenizer_next s) = gosub_stack s"
  "gosub_stack_ptr (tokenizer_next s) = gosub_stack_ptr s"
  "for_stack (tokenizer_next s) = for_stack s" "for_stack_ptr (tokenizer_next s) = for_stack_ptr s"
  "line_index (tokenizer_next s) = line_index s" "variables (tokenizer_next s) = variables s"
  "strings (tokenizer_next s) = strings s" "ended (tokenizer_next s) = ended s"
  "line_num (tokenizer_next s) = line_num s" "stringflag (tokenizer_next s) = stringflag s"
  "peek_function (tokenizer_next s) = peek_function s" "memcmp (tokenizer_next s) = memcmp s"
  by (simp_all add: tokenizer_next_def)

lemma frames_factor_Suc:
  assumes e: "frames (expr k)"
  shows "frames (factor (Suc k))"
  unfolding frames_def
proof (intro allI impI)
  fix s v s'
  assume h: "factor (Suc k) s = Inr (v, s')"
  show "expr_frame s s'"
    using h
    by (auto simp: Let_def bindE_eq_Inr expr_frame_def split: if_splits
        dest!: frame_string_temp frame_wr_arena frame_accept_tok frame_varfactor
          frame_factor_numexp [OF e] frame_factor_stringexp [OF e] framesD [OF e])
qed

lemma frames_term_loop_Suc:
  assumes f: "frames (factor k)" and l: "\<And>v. frames (term_loop k v)"
  shows "frames (term_loop (Suc k) v)"
  unfolding frames_def
proof (intro allI impI)
  fix s w s'
  assume h: "term_loop (Suc k) v s = Inr (w, s')"
  show "expr_frame s s'"
    using h
    by (auto simp: Let_def bindE_eq_Inr expr_frame_def split: if_splits
        dest!: framesD [OF f] framesD [OF l])
qed

lemma frames_term_b_Suc:
  assumes f: "frames (factor k)" and l: "\<And>v. frames (term_loop k v)"
  shows "frames (term_b (Suc k))"
  unfolding frames_def
  by (auto simp: bindE_eq_Inr expr_frame_def dest!: framesD [OF f] framesD [OF l])

lemma frames_expr_loop_Suc:
  assumes f: "frames (term_b k)" and l: "\<And>v. frames (expr_loop k v)"
  shows "frames (expr_loop (Suc k) v)"
  unfolding frames_def
proof (intro allI impI)
  fix s w s'
  assume h: "expr_loop (Suc k) v s = Inr (w, s')"
  show "expr_frame s s'"
    using h
    by (auto simp: Let_def bindE_eq_Inr expr_frame_def split: if_splits
        dest!: framesD [OF f] framesD [OF l] frame_expr_plus_string)
qed

lemma frames_expr_Suc:
  assumes f: "frames (term_b k)" and l: "\<And>v. frames (expr_loop k v)"
  shows "frames (expr (Suc k))"
  unfolding frames_def
  by (auto simp: bindE_eq_Inr expr_frame_def dest!: framesD [OF f] framesD [OF l])

lemma frames_evaluator:
  "frames (factor k) \<and> (\<forall>v. frames (term_loop k v)) \<and> frames (term_b k)
   \<and> (\<forall>v. frames (expr_loop k v)) \<and> frames (expr k)"
proof (induction k)
  case 0
  show ?case by (simp add: frames_def)
next
  case (Suc k)
  then show ?case
    by (intro conjI allI frames_factor_Suc frames_term_loop_Suc frames_term_b_Suc
        frames_expr_loop_Suc frames_expr_Suc) simp_all
qed

lemma frame_expr: "expr k s = Inr (v, s') \<Longrightarrow> expr_frame s s'"
  using frames_evaluator [of k] by (blast dest: framesD)

lemma frame_intexpr: "intexpr k s = Inr (i, s') \<Longrightarrow> expr_frame s s'"
  by (auto simp: intexpr_def bindE_eq_Inr dest: frame_expr)

section \<open>Jumps move the tokenizer only\<close>

lemma tok_frame_refl [simp]: "tok_frame s s"
  by (simp add: tok_frame_def)

lemma tok_frame_trans: "tok_frame s s1 \<Longrightarrow> tok_frame s1 s2 \<Longrightarrow> tok_frame s s2"
  by (simp add: tok_frame_def expr_frame_def)

lemma tok_frame_tokenizer_next [simp]: "tok_frame s (tokenizer_next s)"
  by (simp add: tok_frame_def expr_frame_def)

lemma tok_frame_tpos [simp]: "tok_frame s (s\<lparr>tpos := p\<rparr>)"
  by (simp add: tok_frame_def expr_frame_def)

lemma tok_frame_jls_inner: "jls_inner k s = Inr s' \<Longrightarrow> tok_frame s s'"
proof (induction k arbitrary: s)
  case 0
  then show ?case by simp
next
  case (Suc k)
  then show ?case
    by (auto simp: Let_def split: if_splits intro: tok_frame_trans [OF tok_frame_tokenizer_next])
qed

lemma tok_frame_jls_middle: "jls_middle k s = Inr s' \<Longrightarrow> tok_frame s s'"
proof (induction k arbitrary: s)
  case 0
  then show ?case by simp
next
  case (Suc k)
  from Suc.prems obtain s1 where
    i: "jls_inner k s = Inr s1"
    and r: "(let s2 = (if tokenizer_token s1 = TOKENIZER_CR then tokenizer_next s1 else s1) in
             if tokenizer_token s2 \<noteq> TOKENIZER_NUMBER then jls_middle k s2 else Inr s2) = Inr s'"
    by (auto simp: bindE_eq_Inr)
  have a: "tok_frame s s1" using i by (rule tok_frame_jls_inner)
  define s2 where "s2 = (if tokenizer_token s1 = TOKENIZER_CR then tokenizer_next s1 else s1)"
  have b: "tok_frame s1 s2" by (simp add: s2_def)
  have "tok_frame s2 s'"
    using r Suc.IH [of s2] by (auto simp: Let_def s2_def [symmetric] split: if_splits)
  with a b show ?case by (blast intro: tok_frame_trans)
qed

lemma jls_outer_result:
  "jls_outer k linenum s = Inr s' \<Longrightarrow> tok_frame s s' \<and> tokenizer_num s' = linenum"
proof (induction k arbitrary: s)
  case 0
  then show ?case by simp
next
  case (Suc k)
  show ?case
  proof (cases "tokenizer_num s \<noteq> linenum")
    case True
    with Suc.prems obtain s1 where
      m: "jls_middle k s = Inr s1" and o: "jls_outer k linenum s1 = Inr s'"
      by (auto simp: bindE_eq_Inr)
    from tok_frame_jls_middle [OF m] Suc.IH [OF o] show ?thesis
      by (blast intro: tok_frame_trans)
  next
    case False
    with Suc.prems show ?thesis by simp
  qed
qed

lemma index_find_in_mem:
  "index_find_in xs n = Some pos \<Longrightarrow> (n, pos) \<in> set xs"
  by (induction xs) (auto split: if_splits)

lemmas tok_simps = tokenizer_token_def tokenizer_next_def tokenizer_finished_def cur_def
  tokenizer_num_def lx_def lx_num_def lx_intvar_def lx_stringvar_def lx_string_def

lemma set_variable_int:
  assumes "ubasic_set_variable var t s = Inr s'" and "type t = TYPE_INTEGER"
  shows "\<exists>i. d_i t = Inr i \<and> var AND stringflag s = 0 \<and> 0 \<le> var \<and> var < int (length (variables s))
           \<and> s' = s\<lparr>variables := (variables s)[nat var := i]\<rparr>"
  using assms
  by (auto simp: ubasic_set_variable_def bindE_eq_Inr typecheck_string_def typecheck_int_def
      arr_set_def Let_def split: if_splits)

lemma cur_updates [simp]:
  "cur (s\<lparr>variables := vs\<rparr>) = cur s"
  "cur (s\<lparr>for_stack_ptr := fp\<rparr>) = cur s"
  "cur (s\<lparr>for_stack := fstk\<rparr>) = cur s"
  "cur (s\<lparr>gosub_stack_ptr := gp\<rparr>) = cur s"
  "cur (s\<lparr>gosub_stack := gst\<rparr>) = cur s"
  by (simp_all add: cur_def)

lemma tokenizer_next_variables:
  "tokenizer_next (s\<lparr>variables := vs\<rparr>) = (tokenizer_next s)\<lparr>variables := vs\<rparr>"
  by (simp add: tokenizer_next_def tokenizer_finished_def tokenizer_token_def)

lemma tokenizer_next_for_stack_ptr:
  "tokenizer_next (s\<lparr>for_stack_ptr := fp\<rparr>) = (tokenizer_next s)\<lparr>for_stack_ptr := fp\<rparr>"
  by (simp add: tokenizer_next_def tokenizer_finished_def tokenizer_token_def)

section \<open>Reading and writing the arena\<close>

lemma rd_upto_iff:
  "(rd_upto m p i n = Inr xs) =
     (length xs = n \<and> (\<forall>k<n. rd m p (i + int k) = Inr (xs ! k)))"
proof (induction n arbitrary: i xs)
  case 0
  show ?case by auto
next
  case (Suc n)
  show ?case
  proof
    assume "rd_upto m p i (Suc n) = Inr xs"
    then obtain b bs where b: "rd m p i = Inr b" and bs: "rd_upto m p (i + 1) n = Inr bs"
      and xs: "xs = b # bs"
      by (auto simp: bindE_eq_Inr)
    from bs Suc.IH [of "i + 1" bs]
    have l: "length bs = n" and r: "\<forall>k<n. rd m p (i + 1 + int k) = Inr (bs ! k)" by auto
    have "rd m p (i + int k) = Inr (xs ! k)" if "k < Suc n" for k
    proof (cases k)
      case 0
      with b xs show ?thesis by simp
    next
      case (Suc j)
      have e: "i + int (Suc j) = i + 1 + int j" by simp
      from Suc that r have "rd m p (i + 1 + int j) = Inr (bs ! j)" by simp
      with Suc xs show ?thesis by (simp add: add.assoc)
    qed
    with l xs show "length xs = Suc n \<and> (\<forall>k<Suc n. rd m p (i + int k) = Inr (xs ! k))"
      by simp
  next
    assume h: "length xs = Suc n \<and> (\<forall>k<Suc n. rd m p (i + int k) = Inr (xs ! k))"
    then obtain b bs where xs: "xs = b # bs" and l: "length bs = n"
      by (cases xs) auto
    from h xs have b: "rd m p i = Inr b" by force
    have "\<forall>k<n. rd m p (i + 1 + int k) = Inr (bs ! k)"
    proof (intro allI impI)
      fix k assume "k < n"
      then have "rd m p (i + int (Suc k)) = Inr (xs ! Suc k)" using h by blast
      moreover have "i + int (Suc k) = i + 1 + int k" by simp
      ultimately show "rd m p (i + 1 + int k) = Inr (bs ! k)" by (simp add: xs add.assoc)
    qed
    with l Suc.IH [of "i + 1" bs] have "rd_upto m p (i + 1) n = Inr bs" by simp
    with b xs show "rd_upto m p i (Suc n) = Inr xs" by simp
  qed
qed

lemma rd_bytes_iff:
  "(rd_bytes m p i (int n) = Inr xs) =
     (length xs = n \<and> (\<forall>k<n. rd m p (i + int k) = Inr (xs ! k)))"
  by (simp add: rd_bytes_def rd_upto_iff)

lemma wr_arena_length:
  "wr_arena q bs m = Inr m' \<Longrightarrow> length (stringblob m') = length (stringblob m)"
  by (auto simp: wr_arena_def split: if_splits)

lemma wr_arena_nextstr:
  "wr_arena q bs m = Inr m' \<Longrightarrow> nextstr m' = nextstr m"
  by (auto simp: wr_arena_def split: if_splits)

lemma rd_wr_arena_other:
  assumes w: "wr_arena q bs m = Inr m'" and p: "\<forall>off. p \<noteq> Arena off"
  shows "rd m' p j = rd m p j"
  using w p by (cases p) (auto simp: wr_arena_def rd_def split: if_splits)

lemma rd_wr_arena:
  assumes w: "wr_arena q bs m = Inr m'"
  shows "rd m' (Arena off) j =
     (if q \<le> off + j \<and> off + j < q + int (length bs) then Inr (bs ! nat (off + j - q))
      else rd m (Arena off) j)"
proof -
  from w have q0: "0 \<le> q" and qe: "q + int (length bs) \<le> int (length (stringblob m))"
    and m': "stringblob m' = take (nat q) (stringblob m) @ bs @ drop (nat q + length bs) (stringblob m)"
    by (auto simp: wr_arena_def split: if_splits)
  have len: "length (stringblob m') = length (stringblob m)" using w by (rule wr_arena_length)
  show ?thesis
  proof (cases "0 \<le> off + j \<and> off + j < int (length (stringblob m))")
    case False
    then show ?thesis using q0 qe len by (auto simp: rd_def rd_list_def)
  next
    case True
    define t where "t = nat (off + j)"
    have t: "t < length (stringblob m)" "off + j = int t" using True by (auto simp: t_def)
    have "stringblob m' ! t =
        (if nat q \<le> t \<and> t < nat q + length bs then bs ! (t - nat q) else stringblob m ! t)"
      using t(1) q0 qe unfolding m'
      by (auto simp: nth_append min_def)
    moreover have "nat (off + j - q) = t - nat q" using q0 t by simp
    ultimately show ?thesis
      using True t q0 len by (auto simp: rd_def rd_list_def)
  qed
qed

lemma uint_byte_of_nat: "n \<le> 255 \<Longrightarrow> uint (word_of_nat n :: byte) = int n"
  by (simp add: uint_nat unat_of_nat)

lemma rd_nextstr_update [simp]: "rd (m\<lparr>nextstr := x\<rparr>) p j = rd m p j"
  by (simp add: rd_def split: ptr.splits)

lemma rd_preserved:
  assumes w: "wr_arena q bs m = Inr m'"
    and b: "case p of Arena off \<Rightarrow> off + j < q | _ \<Rightarrow> True"
  shows "rd m' p j = rd m p j"
proof (cases "\<exists>off. p = Arena off")
  case True
  then obtain off where p: "p = Arena off" by blast
  with b have "off + j < q" by simp
  then show ?thesis unfolding p rd_wr_arena [OF w] by simp
next
  case False
  then show ?thesis using rd_wr_arena_other [OF w] by blast
qed

lemma wr_arena_ok:
  "0 \<le> q \<Longrightarrow> q + int (length bs) \<le> int (length (stringblob m)) \<Longrightarrow> \<exists>m'. wr_arena q bs m = Inr m'"
  by (simp add: wr_arena_def)

lemma str_at_rd:
  "str_at s p bs \<Longrightarrow> k \<le> length bs \<Longrightarrow> rd s p (int k) = Inr ((word_of_nat (length bs) # bs) ! k)"
proof -
  assume a: "str_at s p bs" and k: "k \<le> length bs"
  from a have "rd_bytes s p 0 (int (Suc (length bs))) = Inr (word_of_nat (length bs) # bs)"
    by (simp add: str_at_def add.commute)
  then have "\<forall>j<Suc (length bs). rd s p (0 + int j) = Inr ((word_of_nat (length bs) # bs) ! j)"
    unfolding rd_bytes_iff by blast
  with k show ?thesis by (simp add: less_Suc_eq_le)
qed

lemma str_at_intro:
  assumes "length bs \<le> 255"
    and "\<And>k. k \<le> length bs \<Longrightarrow> rd s p (int k) = Inr ((word_of_nat (length bs) # bs) ! k)"
  shows "str_at s p bs"
proof -
  have "rd_bytes s p 0 (int (Suc (length bs))) = Inr (word_of_nat (length bs) # bs)"
    unfolding rd_bytes_iff using assms(2) by (simp add: less_Suc_eq_le)
  with assms(1) show ?thesis by (simp add: str_at_def add.commute)
qed

section \<open>The fallback scan on a program of numbered lines\<close>

lemma cur_in_line:
  assumes "program s = pre @ l @ rest" and "tpos s = length pre + j" and "j < length l"
  shows "cur s = l ! j"
  using assms by (simp add: cur_def nth_append)

lemma line_ok_body:
  assumes "line_ok l" and "j + 1 < length l"
  shows "kind (l ! j) \<noteq> TOKENIZER_CR \<and> kind (l ! j) \<noteq> TOKENIZER_ENDOFINPUT"
proof -
  have "j < length (butlast l)" using assms(2) by simp
  moreover have "\<forall>x\<in>set (butlast l). kind x \<noteq> TOKENIZER_CR \<and> kind x \<noteq> TOKENIZER_ENDOFINPUT"
    using assms(1) by (simp add: line_ok_def list_all_iff)
  ultimately have "kind (butlast l ! j) \<noteq> TOKENIZER_CR \<and> kind (butlast l ! j) \<noteq> TOKENIZER_ENDOFINPUT"
    using nth_mem by blast
  then show ?thesis using \<open>j < length (butlast l)\<close> by (simp add: nth_butlast)
qed

lemma line_ok_last:
  assumes "line_ok l"
  shows "kind (l ! (length l - 1)) = TOKENIZER_CR"
proof -
  have "l \<noteq> []" using assms by (auto simp: line_ok_def)
  then have "last l = l ! (length l - 1)" by (rule last_conv_nth)
  then show ?thesis using assms by (simp add: line_ok_def)
qed

lemma jls_inner_line:
  assumes ok: "line_ok l"
  shows "program s = pre @ l @ rest \<Longrightarrow> tpos s = length pre + j \<Longrightarrow> j + 1 < length l \<Longrightarrow>
         length l - 1 - j \<le> k \<Longrightarrow>
         jls_inner k s = Inr (s\<lparr>tpos := length pre + length l - 1\<rparr>)"
proof (induction k arbitrary: j s)
  case 0
  then show ?case by simp
next
  case (Suc k)
  let ?s1 = "s\<lparr>tpos := tpos s + 1\<rparr>"
  have cj: "cur s = l ! j"
    using Suc.prems(1,2,3) by (intro cur_in_line [where pre = pre and rest = rest]) simp_all
  from line_ok_body [OF ok Suc.prems(3)] cj
  have ne: "tokenizer_token s \<noteq> TOKENIZER_ENDOFINPUT" by (simp add: tokenizer_token_def)
  then have nx: "tokenizer_next s = ?s1" by (rule tokenizer_next_step)
  have c1: "cur ?s1 = l ! (j + 1)"
    using Suc.prems(1,2,3) by (intro cur_in_line [where pre = pre and rest = rest]) simp_all
  show ?case
  proof (cases "j + 2 = length l")
    case True
    then have "j + 1 = length l - 1" by simp
    then have "l ! (j + 1) = l ! (length l - 1)" by (rule arg_cong)
    with line_ok_last [OF ok] c1 have "tokenizer_token ?s1 = TOKENIZER_CR"
      by (simp add: tokenizer_token_def)
    moreover have "?s1 = s\<lparr>tpos := length pre + length l - 1\<rparr>"
      using True Suc.prems(2) by simp
    ultimately show ?thesis using nx by simp
  next
    case False
    with Suc.prems(3) have lt: "(j + 1) + 1 < length l" by simp
    from line_ok_body [OF ok lt] c1
    have "tokenizer_token ?s1 \<noteq> TOKENIZER_CR \<and> tokenizer_token ?s1 \<noteq> TOKENIZER_ENDOFINPUT"
      by (simp add: tokenizer_token_def)
    then have "jls_inner (Suc k) s = jls_inner k ?s1" using nx by simp
    also have "jls_inner k ?s1 = Inr (?s1\<lparr>tpos := length pre + length l - 1\<rparr>)"
      using Suc.prems lt by (intro Suc.IH [where j = "j + 1"]) simp_all
    finally show ?thesis by simp
  qed
qed

lemma jls_middle_line:
  assumes ok: "line_ok l"
    and prog: "program s = pre @ l @ rest"
    and tp: "tpos s = length pre"
    and nxt: "rest \<noteq> []" "kind (hd rest) = TOKENIZER_NUMBER"
    and fuel: "length l \<le> k"
  shows "jls_middle k s = Inr (s\<lparr>tpos := length pre + length l\<rparr>)"
proof -
  have l2: "2 \<le> length l" using ok by (simp add: line_ok_def)
  with fuel obtain k' where k: "k = Suc k'" and k': "length l - 1 \<le> k'"
    by (cases k) auto
  let ?s1 = "s\<lparr>tpos := length pre + length l - 1\<rparr>"
  let ?s2 = "s\<lparr>tpos := length pre + length l\<rparr>"
  have inner: "jls_inner k' s = Inr ?s1"
    using prog tp l2 k' by (intro jls_inner_line [OF ok, where j = 0 and rest = rest]) simp_all
  have c1: "cur ?s1 = l ! (length l - 1)"
    using prog l2 by (intro cur_in_line [where pre = pre and rest = rest]) simp_all
  then have t1: "tokenizer_token ?s1 = TOKENIZER_CR"
    using line_ok_last [OF ok] by (simp add: tokenizer_token_def)
  then have n1: "tokenizer_next ?s1 = ?s2"
    using l2 by (simp add: tokenizer_next_step)
  have "cur ?s2 = rest ! 0"
    using prog nxt(1) by (simp add: cur_def nth_append)
  then have t2: "tokenizer_token ?s2 = TOKENIZER_NUMBER"
    using nxt by (simp add: tokenizer_token_def hd_conv_nth)
  show ?thesis
    unfolding k using inner t1 n1 t2 by (simp add: Let_def)
qed

lemma jls_outer_lines:
  "lines_ok ls \<Longrightarrow> has_line ls linenum \<Longrightarrow> program s = pre @ concat ls \<Longrightarrow>
   tpos s = length pre \<Longrightarrow> length (concat ls) < k \<Longrightarrow>
   jls_outer k linenum s = Inr (s\<lparr>tpos := length pre + line_pos ls linenum\<rparr>)"
proof (induction ls arbitrary: pre s k)
  case Nil
  then show ?case by (simp add: has_line_def)
next
  case (Cons l ls)
  have ok: "line_ok l" and oks: "lines_ok ls"
    using Cons.prems(1) by (simp_all add: lines_ok_def)
  have l2: "2 \<le> length l" using ok by (simp add: line_ok_def)
  obtain k' where k: "k = Suc k'" and k': "length l + length (concat ls) \<le> k'"
    using Cons.prems(5) by (cases k) auto
  have "cur s = l ! 0"
    using Cons.prems(3,4) l2
    by (intro cur_in_line [where pre = pre and rest = "concat ls"]) auto
  then have num: "tokenizer_num s = numv (hd l)"
    using l2 by (cases l) (simp_all add: tokenizer_num_def)
  show ?case
  proof (cases "numv (hd l) = linenum")
    case True
    then have "line_pos (l # ls) linenum = 0" by (simp add: line_pos_def)
    moreover have "s\<lparr>tpos := length pre\<rparr> = s" using Cons.prems(4) by simp
    ultimately show ?thesis unfolding k using True num by simp
  next
    case False
    then have hl: "has_line ls linenum"
      using Cons.prems(2) by (simp add: has_line_def)
    then obtain l' ls' where ls: "ls = l' # ls'"
      by (cases ls) (auto simp: has_line_def)
    have ok': "line_ok l'" using oks by (simp add: ls lines_ok_def)
    then have ne': "l' \<noteq> []" by (auto simp: line_ok_def)
    then have ne: "concat ls \<noteq> []" and hd: "kind (hd (concat ls)) = TOKENIZER_NUMBER"
      using ok' by (simp_all add: ls line_ok_def)
    let ?s1 = "s\<lparr>tpos := length pre + length l\<rparr>"
    have mid: "jls_middle k' s = Inr ?s1"
      using Cons.prems(3,4) ne hd k'
      by (intro jls_middle_line [OF ok, where rest = "concat ls"]) simp_all
    have "jls_outer k' linenum ?s1 = Inr (?s1\<lparr>tpos := length (pre @ l) + line_pos ls linenum\<rparr>)"
      using oks hl Cons.prems(3) k' l2
      by (intro Cons.IH) simp_all
    moreover have "line_pos (l # ls) linenum = length l + line_pos ls linenum"
      using False by (simp add: line_pos_def)
    ultimately show ?thesis
      unfolding k using False num mid by (simp add: add.assoc)
  qed
qed

lemma jump_linenum_slow_lines:
  assumes "lines_ok ls" and "has_line ls linenum" and "program s = concat ls"
    and "length (program s) < k"
  shows "jump_linenum_slow k linenum s = Inr (s\<lparr>tpos := line_pos ls linenum\<rparr>)"
proof -
  have "jls_outer k linenum (tokenizer_init s)
      = Inr ((tokenizer_init s)\<lparr>tpos := length ([] :: lexeme list) + line_pos ls linenum\<rparr>)"
    using assms by (intro jls_outer_lines) (simp_all add: tokenizer_init_def)
  then show ?thesis by (simp add: jump_linenum_slow_def tokenizer_init_def)
qed


lemma line_pos_in_table:
  "has_line ls n \<Longrightarrow> (n, off + line_pos ls n) \<in> set (line_table ls off)"
proof (induction ls arbitrary: off)
  case Nil
  then show ?case by (simp add: has_line_def)
next
  case (Cons l ls)
  show ?case
  proof (cases "numv (hd l) = n")
    case True
    then show ?thesis by (simp add: line_pos_def)
  next
    case False
    with Cons.prems have "has_line ls n" by (simp add: has_line_def)
    from Cons.IH [OF this, of "off + length l"] False show ?thesis
      by (simp add: line_pos_def add.assoc)
  qed
qed


lemma jump_linenum_total:
  assumes "lines_ok ls" and "has_line ls linenum" and "program s = concat ls"
    and "length (program s) < k"
  shows "jump_linenum k linenum s = Inr (s\<lparr>tpos := jump_target s ls linenum\<rparr>)"
  using jump_linenum_slow_lines [OF assms]
  by (simp add: jump_linenum_def jump_target_def tokenizer_goto_def split: option.splits)

lemma jump_target_in_table:
  assumes snd: "index_sound s ls" and hl: "has_line ls linenum"
  shows "(linenum, jump_target s ls linenum) \<in> set (line_table ls 0)"
proof (cases "index_find linenum s")
  case None
  then show ?thesis using line_pos_in_table [OF hl, of 0] by (simp add: jump_target_def)
next
  case (Some pos)
  then have "(linenum, pos) \<in> set (line_index s)"
    by (simp add: index_find_def index_find_in_mem)
  with snd have "(linenum, pos) \<in> set (line_table ls 0)"
    by (auto simp: index_sound_def list_all_iff)
  with Some show ?thesis by (simp add: jump_target_def)
qed

lemma index_sound_cong:
  "line_index s' = line_index s \<Longrightarrow> index_sound s' ls = index_sound s ls"
  by (simp add: index_sound_def)

lemma index_find_updates [simp]:
  "index_find n (s\<lparr>tpos := p\<rparr>) = index_find n s"
  "index_find n (s\<lparr>variables := vs\<rparr>) = index_find n s"
  "index_find n (s\<lparr>gosub_stack := gst\<rparr>) = index_find n s"
  "index_find n (s\<lparr>gosub_stack_ptr := gp\<rparr>) = index_find n s"
  "index_find n (s\<lparr>for_stack_ptr := fp\<rparr>) = index_find n s"
  "index_find n (s\<lparr>line_num := ln\<rparr>) = index_find n s"
  by (simp_all add: index_find_def)



section \<open>Integer variable numbers\<close>

text \<open>
  C10. For a variable number without the string flag, \<open>ubasic_get_variable\<close> and
  \<open>ubasic_set_variable\<close> reject (\<open>badv\<close>, \<open>badsw\<close>) exactly the numbers outside
  \<open>0 .. 26 * 11\<close>; the admitted numbers are 287, the table \<open>variables\<close> has 286 entries,
  and at the admitted number 286 both accesses fall outside the table, while every
  smaller admitted number reads or writes its slot.
\<close>

theorem varnum_guard_admits_286:
  assumes len: "length (variables s) = 286"
    and nonstr: "varnum AND stringflag s = 0"
  shows "((ubasic_get_variable varnum s = Inl Badv) = (\<not> (0 \<le> varnum \<and> varnum \<le> 26 * 11)))
       \<and> ((ubasic_set_variable varnum (TInt i) s = Inl Badsw) = (\<not> (0 \<le> varnum \<and> varnum \<le> 26 * 11)))
       \<and> card {v :: int. 0 \<le> v \<and> v \<le> 26 * 11} = 287
       \<and> (varnum = 286 \<longrightarrow>
            ubasic_get_variable varnum s = Inl OutOfBounds
          \<and> ubasic_set_variable varnum (TInt i) s = Inl OutOfBounds)
       \<and> (0 \<le> varnum \<and> varnum < 286 \<longrightarrow>
            ubasic_get_variable varnum s = Inr (TInt (variables s ! nat varnum))
          \<and> ubasic_set_variable varnum (TInt i) s
              = Inr (s\<lparr>variables := (variables s)[nat varnum := i]\<rparr>))"
proof -
  have get: "ubasic_get_variable varnum s =
      (if 0 \<le> varnum \<and> varnum \<le> 286
       then (if varnum < 286 then Inr (TInt (variables s ! nat varnum)) else Inl OutOfBounds)
       else Inl Badv)"
    using len nonstr by (simp add: ubasic_get_variable_def MAX_VARNUM_def arr_get_def)
  have set: "ubasic_set_variable varnum (TInt i) s =
      (if 0 \<le> varnum \<and> varnum \<le> 286
       then (if varnum < 286 then Inr (s\<lparr>variables := (variables s)[nat varnum := i]\<rparr>)
             else Inl OutOfBounds)
       else Inl Badsw)"
    using len nonstr
    by (simp add: ubasic_set_variable_def MAX_VARNUM_def arr_set_def typecheck_int_def d_i_def)
  have "{v :: int. 0 \<le> v \<and> v \<le> 26 * 11} = {0 .. 286}"
    by auto
  then have card: "card {v :: int. 0 \<le> v \<and> v \<le> 26 * 11} = 287"
    by simp
  show ?thesis
    unfolding get set using card by auto
qed

theorem varnum_guard_admits_286_witness:
  "length (variables (ubasic_init [] 32768 8)) = 286
   \<and> (286 :: int) AND stringflag (ubasic_init [] 32768 8) = 0
   \<and> ubasic_get_variable 286 (ubasic_init [] 32768 8) = Inl OutOfBounds
   \<and> ubasic_set_variable 286 (TInt 7) (ubasic_init [] 32768 8) = Inl OutOfBounds
   \<and> ubasic_get_variable 287 (ubasic_init [] 32768 8) = Inl Badv
   \<and> ubasic_get_variable 285 (ubasic_init [] 32768 8) = Inr (TInt 0)"
proof -
  have len: "length (variables (ubasic_init [] 32768 8)) = 286"
    by (simp add: ubasic_init_def)
  have f1: "(286 :: int) AND stringflag (ubasic_init [] 32768 8) = 0"
    by (simp add: ubasic_init_def)
  have f2: "(287 :: int) AND stringflag (ubasic_init [] 32768 8) = 0"
    by (simp add: ubasic_init_def)
  have f3: "(285 :: int) AND stringflag (ubasic_init [] 32768 8) = 0"
    by (simp add: ubasic_init_def)
  have v285: "variables (ubasic_init [] 32768 8) ! nat 285 = 0"
    by (simp add: ubasic_init_def)
  show ?thesis
    using len f1 v285
      varnum_guard_admits_286 [OF len f1, of 7]
      varnum_guard_admits_286 [OF len f2, of 7]
      varnum_guard_admits_286 [OF len f3, of 7]
    by simp
qed

section \<open>LEFT$, RIGHT$ and MID$ at indices below 1\<close>

text \<open>
  C1. With \<open>A$ = "ABC"\<close> in its heap buffer, \<open>MID$(A$, 0-5, 3)\<close> calls
  \<open>string_cut\<close> with \<open>l = -5\<close>: the test \<open>l > f\<close> fails, the count stays 3, and
  \<open>memcpy\<close> reads from \<open>p - 5\<close>, before the start of the buffer. \<open>LEFT$(A$, 0-1)\<close>
  calls it with \<open>n = -1\<close>, which \<open>memcpy\<close> takes as a \<open>size_t\<close>, and the read runs
  past the end of the buffer.
\<close>

theorem string_cut_reads_outside_buffer:
  "string_cut (Heap 0) (- 5) 3 mem_ABC = Inl OutOfBounds
   \<and> string_cut (Heap 0) 1 (- 1) mem_ABC = Inl OutOfBounds"
  by code_simp

section \<open>String comparison\<close>

lemma memcmp_diff_conforms: "memcmp_conforms memcmp_diff"
  by (simp add: memcmp_conforms_def)

lemma relation_string_test_bool:
  "op \<in> {TOKENIZER_LT, TOKENIZER_GT, TOKENIZER_EQ, TOKENIZER_NE, TOKENIZER_LE, TOKENIZER_GE}
   \<Longrightarrow> relation_string_test op n \<in> {0, 1}"
  by (auto simp: relation_string_test_def)

text \<open>
  C3. \<open>relation\<close> keeps what \<open>memcmp\<close> returns as the three-way value whenever it is
  not 0, and tests it against -1 and 1. With a \<open>memcmp\<close> that returns the difference of
  the differing bytes (-2 for \<open>A\<close> against \<open>C\<close>), \<open>"A" < "C"\<close> evaluates to 0 and
  \<open>"C" <= "A"\<close> evaluates to 1.
\<close>

theorem relation_string_memcmp_not_normalised:
  "map_sum id fst (relation 10 (ubasic_init prog_A_lt_C 32768 8)) = Inr (TInt 0)
   \<and> map_sum id fst (relation 10 (ubasic_init prog_C_le_A 32768 8)) = Inr (TInt 1)"
  by code_simp

section \<open>RETURN with an empty Gosub stack\<close>

lemma cur_index_add [simp]: "cur (index_add n p s) = cur s"
  by (simp add: index_add_def cur_def)

lemma cur_line_num_update [simp]: "cur (s\<lparr>line_num := n\<rparr>) = cur s"
  by (simp add: cur_def)

text \<open>
  C5. With the Gosub stack empty, \<open>return_statement\<close> accepts the RETURN token and
  returns: it changes nothing but the tokenizer position, which it leaves on the
  end-of-line token of its own line. The next \<open>ubasic_run\<close> then reads that token where
  \<open>line_statement\<close> expects a line number, and \<open>accept_tok\<close> exits.
\<close>

theorem return_empty_stack_leaves_cr:
  assumes ret: "tokenizer_token s = TOKENIZER_RETURN"
    and empty: "gosub_stack_ptr s = 0"
    and cr: "tokenizer_token (tokenizer_next s) = TOKENIZER_CR"
  shows "return_statement k s = Inr (s\<lparr>tpos := tpos s + 1\<rparr>)
       \<and> tokenizer_token (s\<lparr>tpos := tpos s + 1\<rparr>) = TOKENIZER_CR
       \<and> ubasic_run k other (s\<lparr>tpos := tpos s + 1\<rparr>) = Inl TokenMismatch"
proof -
  have nx: "tokenizer_next s = s\<lparr>tpos := tpos s + 1\<rparr>"
    using ret by (simp add: tokenizer_next_step)
  have r: "return_statement k s = Inr (s\<lparr>tpos := tpos s + 1\<rparr>)"
    using ret empty nx by (simp add: return_statement_def accept_tok_def)
  have c: "tokenizer_token (s\<lparr>tpos := tpos s + 1\<rparr>) = TOKENIZER_CR"
    using cr nx by simp
  have "ubasic_run k other (s\<lparr>tpos := tpos s + 1\<rparr>) = Inl TokenMismatch"
    using c
    by (simp add: ubasic_run_def tokenizer_finished_def line_statement_def Let_def
        accept_tok_def tokenizer_token_def)
  with r c show ?thesis by simp
qed

theorem return_empty_stack_leaves_cr_witness:
  "tokenizer_token ((ubasic_init prog_return 32768 8)\<lparr>tpos := 1\<rparr>) = TOKENIZER_RETURN
   \<and> gosub_stack_ptr ((ubasic_init prog_return 32768 8)\<lparr>tpos := 1\<rparr>) = 0
   \<and> return_statement 10 ((ubasic_init prog_return 32768 8)\<lparr>tpos := 1\<rparr>)
       = Inr ((ubasic_init prog_return 32768 8)\<lparr>tpos := 2\<rparr>)
   \<and> ubasic_run 10 Inr ((ubasic_init prog_return 32768 8)\<lparr>tpos := 2\<rparr>) = Inl TokenMismatch"
proof -
  let ?s = "(ubasic_init prog_return 32768 8)\<lparr>tpos := 1\<rparr>"
  have ret: "tokenizer_token ?s = TOKENIZER_RETURN"
    by (simp add: tokenizer_token_def cur_def ubasic_init_def prog_return_def lx_def lx_num_def)
  have empty: "gosub_stack_ptr ?s = 0"
    by (simp add: ubasic_init_def)
  have cr: "tokenizer_token (tokenizer_next ?s) = TOKENIZER_CR"
    by (simp add: tokenizer_next_def tokenizer_finished_def tokenizer_token_def cur_def
        ubasic_init_def prog_return_def lx_def lx_num_def)
  show ?thesis
    using ret empty return_empty_stack_leaves_cr [OF ret empty cr, of 10 Inr]
    by (simp add: numeral_2_eq_2)
qed

section \<open>Assigning a string variable to itself\<close>

text \<open>
  C9. \<open>10 A$ = "HELLO"\<close> stores an owned copy in block 0. In \<open>20 A$ = A$\<close> the value
  of the right-hand side is the pointer held by the slot itself;
  \<open>ubasic_set_variable\<close> frees that block and only then has \<open>string_save\<close> read the
  length and the bytes from it.
\<close>

theorem self_assignment_reads_freed_buffer:
  "map_sum id strings (ubasic_run 10 Inr (ubasic_init prog_self_assign 32768 8))
     = Inr (Heap 0 # replicate 25 Nullstr)
   \<and> map_sum id heap (ubasic_run 10 Inr (ubasic_init prog_self_assign 32768 8))
     = Inr [Some [5, 72, 69, 76, 76, 79]]
   \<and> map_sum id tpos
       (bindE (ubasic_run 10 Inr (ubasic_init prog_self_assign 32768 8)) (ubasic_run 10 Inr))
     = Inl UseAfterFree"
  by code_simp

section \<open>String concatenation\<close>

text \<open>
  C4, as the claim states it, fails: the two literals of \<open>prog_concat_255\<close> have 127
  and 128 bytes, 255 together; they take 128 and 129 bytes of the arena, the result
  needs 256 more, and \<open>string_temp\<close> ends the evaluation with \<open>Out of temporary space\<close>
  although the sum does not exceed 255.
\<close>

theorem concat_255_out_of_temporary_space:
  "length (replicate 127 (65 :: byte)) + length (replicate 128 (66 :: byte)) = 255
   \<and> map_sum id fst (expr 10 (ubasic_init prog_concat_255 32768 8)) = Inl OutOfTempSpace"
  by code_simp

text \<open>
  C4, amended. For strings \<open>a\<close> and \<open>b\<close> held in buffers of the running statement, \<open>+\<close>
  fails with \<open>String too long\<close> exactly when the lengths add up to more than 255; when
  they do not, it fails with \<open>Out of temporary space\<close> if the arena has fewer than
  \<open>len(a) + len(b) + 1\<close> bytes left after the cursor, and otherwise the result is a new
  buffer at the cursor that holds the bytes of \<open>a\<close> followed by the bytes of \<open>b\<close>, of
  length \<open>len(a) + len(b)\<close>.
\<close>

theorem string_concat_amended:
  assumes a: "str_at s vp a" and b: "str_at s t2p b"
    and sa: "below_cursor s vp (length a)" and sb: "below_cursor s t2p (length b)"
    and p0: "0 \<le> nextstr s" and blob: "length (stringblob s) = 512"
  shows "(length a + length b > 255 \<longrightarrow> expr_plus_string vp t2p s = Inl StringTooLong)
       \<and> (length a + length b \<le> 255 \<longrightarrow> expr_plus_string vp t2p s \<noteq> Inl StringTooLong)
       \<and> (length a + length b \<le> 255 \<and> nextstr s + int (length a + length b) + 1 > 512 \<longrightarrow>
            expr_plus_string vp t2p s = Inl OutOfTempSpace)
       \<and> (length a + length b \<le> 255 \<and> nextstr s + int (length a + length b) + 1 \<le> 512 \<longrightarrow>
            (\<exists>s'. expr_plus_string vp t2p s = Inr (Arena (nextstr s), s')
                \<and> str_at s' (Arena (nextstr s)) (a @ b)
                \<and> nextstr s' = nextstr s + int (length a + length b) + 1))"
proof -
  define la where "la = length a"
  define lb where "lb = length b"
  define p where "p = nextstr s"
  have pp: "0 \<le> p" using p0 by (simp add: p_def)
  have la255: "la \<le> 255" and lb255: "lb \<le> 255"
    using a b by (simp_all add: str_at_def la_def lb_def)
  have ra: "rd s vp (int k) = Inr ((word_of_nat la # a) ! k)" if "k \<le> la" for k
    using str_at_rd [OF a] that by (simp add: la_def)
  have rb: "rd s t2p (int k) = Inr ((word_of_nat lb # b) ! k)" if "k \<le> lb" for k
    using str_at_rd [OF b] that by (simp add: lb_def)
  have ra0: "rd s vp 0 = Inr (word_of_nat la)" using ra [of 0] by simp
  have rb0: "rd s t2p 0 = Inr (word_of_nat lb)" using rb [of 0] by simp
  have ua: "uint (word_of_nat la :: byte) = int la" using la255 by (rule uint_byte_of_nat)
  have ub: "uint (word_of_nat lb :: byte) = int lb" using lb255 by (rule uint_byte_of_nat)
  have start: "expr_plus_string vp t2p s =
      bindE (string_temp (int la + int lb) s) (\<lambda>(q, s1).
        bindE (memcpy_arena (q + 1) vp 1 (int la) s1) (\<lambda>s2.
          bindE (rd s2 t2p 0) (\<lambda>l2'.
            bindE (memcpy_arena (q + int la + 1) t2p 1 (uint l2') s2) (\<lambda>s3.
              Inr (Arena q, s3)))))"
    by (simp add: expr_plus_string_def ra0 rb0 ua ub)
  have long: "expr_plus_string vp t2p s = Inl StringTooLong" if "la + lb > 255"
    using that unfolding start by (simp add: string_temp_def)
  have nospace: "expr_plus_string vp t2p s = Inl OutOfTempSpace"
    if "la + lb \<le> 255" and "p + int (la + lb) + 1 > 512"
    using that unfolding start by (simp add: string_temp_def STRINGBLOB_SIZE_def p_def Let_def)
  have fits: "\<exists>s'. expr_plus_string vp t2p s = Inr (Arena p, s')
                \<and> str_at s' (Arena p) (a @ b) \<and> nextstr s' = p + int (la + lb) + 1"
    if n255: "la + lb \<le> 255" and room: "p + int (la + lb) + 1 \<le> 512"
  proof -
    define m1 where "m1 = s\<lparr>nextstr := p + (int la + int lb + 1)\<rparr>"
    have bl1: "length (stringblob m1) = 512" by (simp add: m1_def blob)
    obtain s1 where w1: "wr_arena p [word_of_int (int la + int lb)] m1 = Inr s1"
      using wr_arena_ok [of p "[word_of_int (int la + int lb)]" m1] pp room bl1
      by auto
    have nm1: "nextstr m1 = p + (int la + int lb + 1)" by (simp add: m1_def)
    have st: "string_temp (int la + int lb) s = Inr (p, s1)"
      using n255 room w1 nm1
      by (simp add: string_temp_def STRINGBLOB_SIZE_def Let_def p_def [symmetric] m1_def [symmetric])
    have bl2: "length (stringblob s1) = 512" using wr_arena_length [OF w1] bl1 by simp
    have below_a: "case vp of Arena off \<Rightarrow> off + int k < p | _ \<Rightarrow> True" if "k \<le> la" for k
      using sa that by (auto simp: below_cursor_def la_def p_def split: ptr.splits)
    have below_b: "case t2p of Arena off \<Rightarrow> off + int k < p | _ \<Rightarrow> True" if "k \<le> lb" for k
      using sb that by (auto simp: below_cursor_def lb_def p_def split: ptr.splits)
    have r1a: "rd s1 vp (int k) = rd s vp (int k)" if "k \<le> la" for k
      using rd_preserved [OF w1 below_a [OF that]] by (simp add: m1_def)
    have r1b: "rd s1 t2p (int k) = rd s t2p (int k)" if "k \<le> lb" for k
      using rd_preserved [OF w1 below_b [OF that]] by (simp add: m1_def)
    have rda: "rd_bytes s1 vp 1 (int la) = Inr a"
      unfolding rd_bytes_iff
    proof (intro conjI allI impI)
      show "length a = la" by (simp add: la_def)
      fix k assume k: "k < la"
      have "rd s1 vp (int (Suc k)) = Inr ((word_of_nat la # a) ! Suc k)"
        using r1a [of "Suc k"] ra [of "Suc k"] k by simp
      then show "rd s1 vp (1 + int k) = Inr (a ! k)" by (simp add: add.commute)
    qed
    obtain s2 where w2: "wr_arena (p + 1) a s1 = Inr s2"
      using wr_arena_ok [of "p + 1" a s1] pp room bl2 by (auto simp: la_def)
    have mc1: "memcpy_arena (p + 1) vp 1 (int la) s1 = Inr s2"
      by (simp add: memcpy_arena_def rda w2)
    have bl3: "length (stringblob s2) = 512" using wr_arena_length [OF w2] bl2 by simp
    have below_b2: "case t2p of Arena off \<Rightarrow> off + int k < p + 1 | _ \<Rightarrow> True" if "k \<le> lb" for k
      using below_b [OF that] by (auto split: ptr.splits)
    have r2b: "rd s2 t2p (int k) = rd s t2p (int k)" if "k \<le> lb" for k
      using rd_preserved [OF w2 below_b2 [OF that]] r1b [OF that] by simp
    have r2b0: "rd s2 t2p 0 = Inr (word_of_nat lb)"
      using r2b [of 0] rb0 by simp
    have rdb: "rd_bytes s2 t2p 1 (int lb) = Inr b"
      unfolding rd_bytes_iff
    proof (intro conjI allI impI)
      show "length b = lb" by (simp add: lb_def)
      fix k assume k: "k < lb"
      have "rd s2 t2p (int (Suc k)) = Inr ((word_of_nat lb # b) ! Suc k)"
        using r2b [of "Suc k"] rb [of "Suc k"] k by simp
      then show "rd s2 t2p (1 + int k) = Inr (b ! k)" by (simp add: add.commute)
    qed
    obtain s3 where w3: "wr_arena (p + int la + 1) b s2 = Inr s3"
      using wr_arena_ok [of "p + int la + 1" b s2] pp room bl3 by (auto simp: lb_def)
    have mc2: "memcpy_arena (p + int la + 1) t2p 1 (int lb) s2 = Inr s3"
      by (simp add: memcpy_arena_def rdb w3)
    have res: "expr_plus_string vp t2p s = Inr (Arena p, s3)"
      unfolding start by (simp add: st mc1 r2b0 ub mc2)
    have nx: "nextstr s3 = p + int (la + lb) + 1"
      using wr_arena_nextstr [OF w3] wr_arena_nextstr [OF w2] wr_arena_nextstr [OF w1]
      by (simp add: m1_def)
    have rdf: "rd s3 (Arena p) (int k) = Inr ((word_of_nat (length (a @ b)) # a @ b) ! k)"
      if k: "k \<le> length (a @ b)" for k
    proof -
      have wn: "(word_of_int (int la + int lb) :: byte) = word_of_nat (length (a @ b))"
        by (simp add: la_def lb_def)
      consider (len) "k = 0" | (first) "1 \<le> k" "k \<le> la" | (second) "la < k"
        by linarith
      then show ?thesis
      proof cases
        case len
        have "rd s3 (Arena p) 0 = Inr (word_of_int (int la + int lb))"
          unfolding rd_wr_arena [OF w3] rd_wr_arena [OF w2] rd_wr_arena [OF w1] by simp
        then show ?thesis unfolding len wn by simp
      next
        case first
        have i: "nat (p + int k - (p + 1)) = k - 1" by simp
        have "rd s3 (Arena p) (int k) = Inr (a ! (k - 1))"
          unfolding rd_wr_arena [OF w3] rd_wr_arena [OF w2] i using first
          by (simp add: la_def)
        moreover have "(word_of_nat (length (a @ b)) # a @ b) ! k = a ! (k - 1)"
          using first by (cases k) (simp_all add: nth_append la_def)
        ultimately show ?thesis by simp
      next
        case second
        have i: "nat (p + int k - (p + int la + 1)) = k - la - 1" by simp
        have "rd s3 (Arena p) (int k) = Inr (b ! (k - la - 1))"
          unfolding rd_wr_arena [OF w3] i using second k
          by (simp add: la_def lb_def)
        moreover have "(word_of_nat (length (a @ b)) # a @ b) ! k = b ! (k - la - 1)"
          using second by (cases k) (simp_all add: nth_append la_def)
        ultimately show ?thesis by simp
      qed
    qed
    have "str_at s3 (Arena p) (a @ b)"
      using n255 rdf by (intro str_at_intro) (simp_all add: la_def lb_def)
    with res nx show ?thesis by blast
  qed
  have notlong: "expr_plus_string vp t2p s \<noteq> Inl StringTooLong" if n255: "la + lb \<le> 255"
  proof (cases "p + int (la + lb) + 1 \<le> 512")
    case True
    from fits [OF n255 True] show ?thesis by auto
  next
    case False
    then show ?thesis using nospace [OF n255] by simp
  qed
  from long notlong nospace fits show ?thesis
    unfolding la_def lb_def p_def by blast
qed

theorem string_concat_amended_witness:
  "str_at state_AAA_BB (Arena 0) [65, 65, 65] \<and> str_at state_AAA_BB (Arena 4) [66, 66]
   \<and> (\<exists>s'. expr_plus_string (Arena 0) (Arena 4) state_AAA_BB = Inr (Arena 7, s')
          \<and> str_at s' (Arena 7) [65, 65, 65, 66, 66] \<and> nextstr s' = 13)"
proof -
  have a: "str_at state_AAA_BB (Arena 0) [65, 65, 65]" by code_simp
  have b: "str_at state_AAA_BB (Arena 4) [66, 66]" by code_simp
  have sa: "below_cursor state_AAA_BB (Arena 0) (length [65 :: byte, 65, 65])" by code_simp
  have sb: "below_cursor state_AAA_BB (Arena 4) (length [66 :: byte, 66])" by code_simp
  have p0: "0 \<le> nextstr state_AAA_BB" by (simp add: state_AAA_BB_def)
  have n: "nextstr state_AAA_BB = 7" by (simp add: state_AAA_BB_def)
  have blob: "length (stringblob state_AAA_BB) = 512" by (simp add: state_AAA_BB_def)
  from string_concat_amended [OF a b sa sb p0 blob] a b show ?thesis
    by (simp add: n)
qed

section \<open>GOSUB\<close>

text \<open>
  C6. A GOSUB statement of a program of numbered lines, whose target expression
  evaluates to the number \<open>linenum\<close> of one of the lines and is followed by the end of
  the line. With fewer than 10 frames on the Gosub stack the statement returns: the
  number read at the token after the end of the line (the number of the following
  line) is stored at the stack pointer, the pointer is incremented, and the tokenizer
  stands where a line numbered \<open>linenum\<close> starts (at the indexed position, or at the
  first such line found by the scan from the program start). With 10 frames the
  statement is the fatal error of the overflow branch and nothing is stored.
\<close>

theorem gosub_pushes_or_halts:
  assumes prog: "program s = concat ls" and ok: "lines_ok ls"
    and hl: "has_line ls linenum" and snd: "index_sound s ls"
    and fuel: "length (program s) < k"
    and len: "length (gosub_stack s) = 10"
    and ptr0: "0 \<le> gosub_stack_ptr s"
    and go: "tokenizer_token s = TOKENIZER_GO"
    and sub: "tokenizer_token (tokenizer_next s) = TOKENIZER_SUB"
    and ev: "intexpr k (tokenizer_next (tokenizer_next s)) = Inr (linenum, s3)"
    and cr: "tokenizer_token s3 = TOKENIZER_CR"
  shows "(gosub_stack_ptr s < 10 \<longrightarrow>
            go_statement k s =
              Inr ((tokenizer_next s3)
                     \<lparr>gosub_stack := (gosub_stack s)[nat (gosub_stack_ptr s) := tokenizer_num (tokenizer_next s3)],
                      gosub_stack_ptr := gosub_stack_ptr s + 1,
                      tpos := jump_target s ls linenum\<rparr>)
          \<and> (linenum, jump_target s ls linenum) \<in> set (line_table ls 0))
       \<and> (gosub_stack_ptr s \<ge> 10 \<longrightarrow> go_statement k s = Inl ReturnWithoutGosub)"
proof -
  let ?s1 = "tokenizer_next s"
  let ?s2 = "tokenizer_next ?s1"
  let ?s4 = "tokenizer_next s3"
  have a1: "accept_tok TOKENIZER_GO s = Inr ?s1"
    using go by (simp add: accept_tok_def)
  have a2: "accept_either TOKENIZER_TO TOKENIZER_SUB ?s1 = Inr (TOKENIZER_SUB, ?s2)"
    using sub by (simp add: accept_either_def accept_tok_def)
  have a4: "accept_tok TOKENIZER_CR s3 = Inr ?s4"
    using cr by (simp add: accept_tok_def)
  have fr: "expr_frame ?s2 s3" using ev by (rule frame_intexpr)
  have st: "gosub_stack ?s4 = gosub_stack s" and sp: "gosub_stack_ptr ?s4 = gosub_stack_ptr s"
    and li: "line_index ?s4 = line_index s" and pr: "program ?s4 = program s"
    using fr by (simp_all add: expr_frame_def)
  let ?st = "(gosub_stack s)[nat (gosub_stack_ptr s) := tokenizer_num ?s4]"
  let ?s5 = "?s4\<lparr>gosub_stack := ?st, gosub_stack_ptr := gosub_stack_ptr s + 1\<rparr>"
  have eq: "go_statement k s = jump_linenum k linenum ?s5" if lt: "gosub_stack_ptr s < 10"
    using a1 a2 ev a4 st sp len ptr0 lt
    by (simp add: go_statement_def MAX_GOSUB_STACK_DEPTH_def arr_set_def)
  have pr5: "program ?s5 = concat ls" using pr prog by simp
  have fuel5: "length (program ?s5) < k" using pr fuel by simp
  have tg: "jump_target ?s5 ls linenum = jump_target s ls linenum"
    using li by (simp add: jump_target_def index_find_def)
  have arrive: "go_statement k s = Inr (?s5\<lparr>tpos := jump_target s ls linenum\<rparr>)"
    if lt: "gosub_stack_ptr s < 10"
    using eq [OF lt] jump_linenum_total [OF ok hl pr5 fuel5] tg by simp
  have ovf: "go_statement k s = Inl ReturnWithoutGosub" if ge: "gosub_stack_ptr s \<ge> 10"
    using a1 a2 ev a4 sp ge
    by (simp add: go_statement_def MAX_GOSUB_STACK_DEPTH_def)
  from arrive ovf jump_target_in_table [OF snd hl] show ?thesis by simp
qed

theorem gosub_pushes_or_halts_witness:
  "go_statement 12 ((ubasic_init prog_gosub 32768 8)\<lparr>tpos := 1, gosub_stack_ptr := 0\<rparr>)
     = Inr ((ubasic_init prog_gosub 32768 8)
              \<lparr>tpos := 8, gosub_stack := (replicate 10 0)[0 := 20], gosub_stack_ptr := 1\<rparr>)
   \<and> (100, 8) \<in> set (line_table lines_gosub 0)
   \<and> go_statement 12 ((ubasic_init prog_gosub 32768 8)\<lparr>tpos := 1, gosub_stack_ptr := 10\<rparr>)
       = Inl ReturnWithoutGosub"
proof -
  define s where "s p = (ubasic_init prog_gosub 32768 8)\<lparr>tpos := 1, gosub_stack_ptr := p\<rparr>" for p
  have pg: "prog_gosub = [lx_num 10, lx TOKENIZER_GO, lx TOKENIZER_SUB, lx_num 100, lx TOKENIZER_CR,
      lx_num 20, lx TOKENIZER_STOP, lx TOKENIZER_CR,
      lx_num 100, lx TOKENIZER_RETURN, lx TOKENIZER_CR]"
    by (simp add: prog_gosub_def lines_gosub_def)
  have prog: "program (s p) = prog_gosub" for p by (simp add: s_def ubasic_init_def)
  have progc: "program (s p) = concat lines_gosub" for p by (simp add: prog prog_gosub_def)
  have ok: "lines_ok lines_gosub"
    by (simp add: lines_ok_def line_ok_def lines_gosub_def lx_def lx_num_def)
  have hl: "has_line lines_gosub 100"
    by (simp add: has_line_def lines_gosub_def lx_def lx_num_def)
  have tp: "tpos (s p) = 1" for p by (simp add: s_def)
  have li: "line_index (s p) = []" for p by (simp add: s_def ubasic_init_def)
  have snd: "index_sound (s p) lines_gosub" for p by (simp add: index_sound_def li)
  have fuel: "length (program (s p)) < 12" for p by (simp add: prog pg)
  have st: "gosub_stack (s p) = replicate 10 0" for p by (simp add: s_def ubasic_init_def)
  have sp: "gosub_stack_ptr (s p) = p" for p by (simp add: s_def)
  have len: "length (gosub_stack (s p)) = 10" for p by (simp add: st)
  have go: "tokenizer_token (s p) = TOKENIZER_GO" for p
    by (simp add: tok_simps prog tp pg)
  have nx1: "tokenizer_next (s p) = (s p)\<lparr>tpos := 2\<rparr>" for p
    by (simp add: tok_simps prog tp pg)
  have sub: "tokenizer_token (tokenizer_next (s p)) = TOKENIZER_SUB" for p
    unfolding nx1 by (simp add: tok_simps prog pg)
  have nx2: "tokenizer_next (tokenizer_next (s p)) = (s p)\<lparr>tpos := 3\<rparr>" for p
    unfolding nx1 by (simp add: tok_simps prog pg)
  have ev: "intexpr 12 (tokenizer_next (tokenizer_next (s p))) = Inr (100, (s p)\<lparr>tpos := 4\<rparr>)" for p
    unfolding nx2
    by (simp add: intexpr_def eval_nat_numeral Let_def accept_tok_def tok_simps prog
        pg typecheck_int_def d_i_def)
  have cr: "tokenizer_token ((s p)\<lparr>tpos := 4\<rparr>) = TOKENIZER_CR" for p
    by (simp add: tok_simps prog pg)
  have nx5: "tokenizer_next ((s p)\<lparr>tpos := 4\<rparr>) = (s p)\<lparr>tpos := 5\<rparr>" for p
    by (simp add: tok_simps prog pg)
  have p0: "0 \<le> gosub_stack_ptr (s 0)" and p10: "0 \<le> gosub_stack_ptr (s 10)"
    by (simp_all add: sp)
  note th0 = gosub_pushes_or_halts [OF progc ok hl snd fuel len p0 go sub ev cr]
  note th10 = gosub_pushes_or_halts [OF progc ok hl snd fuel len p10 go sub ev cr]
  have n20: "tokenizer_num ((s 0)\<lparr>tpos := 5\<rparr>) = 20"
    by (simp add: tok_simps prog pg)
  have tg: "jump_target (s 0) lines_gosub 100 = 8"
    by (simp add: jump_target_def index_find_def li line_pos_def lines_gosub_def lx_def lx_num_def)
  have lt: "gosub_stack_ptr (s 0) < 10" and ge: "gosub_stack_ptr (s 10) \<ge> 10"
    by (simp_all add: sp)
  from th0 [THEN conjunct1, THEN mp, OF lt]
  have a: "go_statement 12 (s 0)
      = Inr ((s 0)\<lparr>tpos := 8, gosub_stack := (replicate 10 0)[0 := 20], gosub_stack_ptr := 1\<rparr>)"
    and m: "(100, 8) \<in> set (line_table lines_gosub 0)"
    by (simp_all add: nx5 n20 sp st tg)
  have b: "go_statement 12 (s 10) = Inl ReturnWithoutGosub"
    using th10 [THEN conjunct2, THEN mp, OF ge] .
  have e: "(s 0)\<lparr>tpos := 8, gosub_stack := (replicate 10 0)[0 := 20], gosub_stack_ptr := 1\<rparr>
      = (ubasic_init prog_gosub 32768 8)
              \<lparr>tpos := 8, gosub_stack := (replicate 10 0)[0 := 20], gosub_stack_ptr := 1\<rparr>"
    by (simp add: s_def)
  from a b m e show ?thesis unfolding s_def by simp
qed

section \<open>FOR with a full For stack\<close>

text \<open>
  C7. A FOR statement executed when the For stack already holds 4 frames: \<open>FOR\<close>, an
  integer variable of the table, \<open>=\<close>, an initial expression of integer value \<open>i\<close>,
  \<open>TO\<close>, a limit expression, an optional \<open>STEP\<close> with its expression, and the end of
  the line. The statement returns without any error: the variable holds \<open>i\<close>, the For
  stack and its pointer are those of the state before, and the tokenizer stands on the
  token after the end of the line, so the run loop goes on with the loop body.
\<close>

theorem for_overflow_silently_dropped:
  assumes ovf: "for_stack_ptr s \<ge> 4"
    and lenv: "length (variables s) = 286"
    and t1: "tokenizer_token s = TOKENIZER_FOR"
    and t2: "tokenizer_token (tokenizer_next s) = TOKENIZER_INTVAR"
    and var: "var = tokenizer_variable_num (tokenizer_next s)"
    and vr: "var AND stringflag s = 0" "0 \<le> var" "var < 286"
    and t3: "tokenizer_token (tokenizer_next (tokenizer_next s)) = TOKENIZER_EQ"
    and ev: "expr k (tokenizer_next (tokenizer_next (tokenizer_next s))) = Inr (TInt i, s4)"
    and t4: "tokenizer_token s4 = TOKENIZER_TO"
    and ev2: "intexpr k (tokenizer_next (s4\<lparr>variables := (variables s)[nat var := i]\<rparr>)) = Inr (to_v, s7)"
    and stp: "(if tokenizer_token s7 = TOKENIZER_STEP then intexpr k (tokenizer_next s7)
               else Inr (1, s7)) = Inr (step_v, s9)"
    and cr: "tokenizer_token s9 = TOKENIZER_CR"
  shows "for_statement k s = Inr (s9\<lparr>tpos := tpos s9 + 1\<rparr>)
       \<and> for_stack s9 = for_stack s \<and> for_stack_ptr s9 = for_stack_ptr s
       \<and> variables s9 = (variables s)[nat var := i]"
proof -
  let ?s1 = "tokenizer_next s"
  let ?s2 = "tokenizer_next ?s1"
  let ?s3 = "tokenizer_next ?s2"
  let ?s5 = "s4\<lparr>variables := (variables s)[nat var := i]\<rparr>"
  have a1: "accept_tok TOKENIZER_FOR s = Inr ?s1" using t1 by (simp add: accept_tok_def)
  have a2: "accept_tok TOKENIZER_INTVAR ?s1 = Inr ?s2" using t2 by (simp add: accept_tok_def)
  have a3: "accept_tok TOKENIZER_EQ ?s2 = Inr ?s3" using t3 by (simp add: accept_tok_def)
  have f34: "expr_frame ?s3 s4" using ev by (rule frame_expr)
  have v4: "variables s4 = variables s" "stringflag s4 = stringflag s"
    "for_stack s4 = for_stack s" "for_stack_ptr s4 = for_stack_ptr s"
    using f34 by (simp_all add: expr_frame_def)
  have sv: "ubasic_set_variable var (TInt i) s4 = Inr ?s5"
    using vr lenv v4
    by (simp add: ubasic_set_variable_def MAX_VARNUM_def arr_set_def typecheck_int_def d_i_def)
  have c5: "cur ?s5 = cur s4" by simp
  have a6: "accept_tok TOKENIZER_TO ?s5 = Inr (tokenizer_next ?s5)"
    using t4 by (simp add: accept_tok_def tokenizer_token_def)
  have f57: "expr_frame (tokenizer_next ?s5) s7" using ev2 by (rule frame_intexpr)
  have f79: "expr_frame s7 s9"
    using stp by (auto simp: expr_frame_def split: if_splits dest!: frame_intexpr)
  have st: "(if tokenizer_token s7 = TOKENIZER_STEP
             then bindE (accept_tok TOKENIZER_STEP s7) (\<lambda>s8. intexpr k s8)
             else Inr (1, s7)) = Inr (step_v, s9)"
    using stp by (cases "tokenizer_token s7 = TOKENIZER_STEP") (simp_all add: accept_tok_def)
  have ne: "tokenizer_token s9 \<noteq> TOKENIZER_ENDOFINPUT" using cr by simp
  have a10: "accept_tok TOKENIZER_CR s9 = Inr (s9\<lparr>tpos := tpos s9 + 1\<rparr>)"
    using cr tokenizer_next_step [OF ne] by (simp add: accept_tok_def)
  have f9: "for_stack s9 = for_stack s" "for_stack_ptr s9 = for_stack_ptr s"
    "variables s9 = (variables s)[nat var := i]"
    using f57 f79 v4 by (simp_all add: expr_frame_def)
  have "for_statement k s = Inr (s9\<lparr>tpos := tpos s9 + 1\<rparr>)"
    using a1 a2 a3 ev sv a6 ev2 st a10 f9(2) ovf var
    by (simp add: for_statement_def Let_def typecheck_int_def MAX_FOR_STACK_DEPTH_def)
  with f9 show ?thesis by simp
qed

theorem for_overflow_silently_dropped_witness:
  "for_statement 9 ((ubasic_init prog_for 32768 8)\<lparr>tpos := 1, for_stack_ptr := 4\<rparr>)
     = Inr ((ubasic_init prog_for 32768 8)
              \<lparr>tpos := 8, for_stack_ptr := 4, variables := (replicate 286 0)[8 := 1]\<rparr>)
   \<and> for_statement 9 ((ubasic_init prog_for_step 32768 8)\<lparr>tpos := 1, for_stack_ptr := 4\<rparr>)
     = Inr ((ubasic_init prog_for_step 32768 8)
              \<lparr>tpos := 10, for_stack_ptr := 4, variables := (replicate 286 0)[8 := 1]\<rparr>)"
proof -
  define s where "s pr = (ubasic_init pr 32768 8)\<lparr>tpos := 1, for_stack_ptr := 4\<rparr>" for pr
  have pf: "prog_for = [lx_num 10, lx TOKENIZER_FOR, lx_intvar 8, lx TOKENIZER_EQ, lx_num 1,
      lx TOKENIZER_TO, lx_num 3, lx TOKENIZER_CR,
      lx_num 20, lx TOKENIZER_NEXT, lx_intvar 8, lx TOKENIZER_CR]"
    by (simp add: prog_for_def lines_for_def)
  have prog: "program (s pr) = pr" for pr by (simp add: s_def ubasic_init_def)
  have tp: "tpos (s pr) = 1" for pr by (simp add: s_def)
  have vars: "variables (s pr) = replicate 286 0" for pr by (simp add: s_def ubasic_init_def)
  have lenv: "length (variables (s pr)) = 286" for pr by (simp add: vars)
  have flag: "stringflag (s pr) = 32768" for pr by (simp add: s_def ubasic_init_def)
  have ovf: "for_stack_ptr (s pr) \<ge> 4" for pr by (simp add: s_def)
  have vr: "(8 :: int) AND stringflag (s pr) = 0" "(0 :: int) \<le> 8" "(8 :: int) < 286" for pr
    by (simp_all add: flag)
  let ?a = "s prog_for"
  have a1: "tokenizer_token ?a = TOKENIZER_FOR" by (simp add: tok_simps prog tp pf)
  have an1: "tokenizer_next ?a = ?a\<lparr>tpos := 2\<rparr>" by (simp add: tok_simps prog tp pf)
  have a2: "tokenizer_token (tokenizer_next ?a) = TOKENIZER_INTVAR"
    unfolding an1 by (simp add: tok_simps prog pf)
  have av: "8 = tokenizer_variable_num (tokenizer_next ?a)"
    unfolding an1 by (simp add: tokenizer_variable_num_def tok_simps prog pf)
  have an2: "tokenizer_next (tokenizer_next ?a) = ?a\<lparr>tpos := 3\<rparr>"
    unfolding an1 by (simp add: tok_simps prog pf)
  have a3: "tokenizer_token (tokenizer_next (tokenizer_next ?a)) = TOKENIZER_EQ"
    unfolding an2 by (simp add: tok_simps prog pf)
  have an3: "tokenizer_next (tokenizer_next (tokenizer_next ?a)) = ?a\<lparr>tpos := 4\<rparr>"
    unfolding an2 by (simp add: tok_simps prog pf)
  have aev: "expr 9 (tokenizer_next (tokenizer_next (tokenizer_next ?a))) = Inr (TInt 1, ?a\<lparr>tpos := 5\<rparr>)"
    unfolding an3
    by (simp add: eval_nat_numeral Let_def accept_tok_def tok_simps prog pf)
  have a4: "tokenizer_token (?a\<lparr>tpos := 5\<rparr>) = TOKENIZER_TO" by (simp add: tok_simps prog pf)
  have aev2: "intexpr 9 (tokenizer_next (?a\<lparr>tpos := 5, variables := (variables ?a)[nat 8 := 1]\<rparr>))
      = Inr (3, ?a\<lparr>tpos := 7, variables := (variables ?a)[nat 8 := 1]\<rparr>)"
    by (simp add: intexpr_def eval_nat_numeral Let_def accept_tok_def tok_simps prog pf
        typecheck_int_def d_i_def)
  have astp: "(if tokenizer_token (?a\<lparr>tpos := 7, variables := (variables ?a)[nat 8 := 1]\<rparr>) = TOKENIZER_STEP
       then intexpr 9 (tokenizer_next (?a\<lparr>tpos := 7, variables := (variables ?a)[nat 8 := 1]\<rparr>))
       else Inr (1, ?a\<lparr>tpos := 7, variables := (variables ?a)[nat 8 := 1]\<rparr>))
      = Inr (1, ?a\<lparr>tpos := 7, variables := (variables ?a)[nat 8 := 1]\<rparr>)"
    by (simp add: tok_simps prog pf)
  have acr: "tokenizer_token (?a\<lparr>tpos := 7, variables := (variables ?a)[nat 8 := 1]\<rparr>) = TOKENIZER_CR"
    by (simp add: tok_simps prog pf)
  note tha = for_overflow_silently_dropped [OF ovf lenv a1 a2 av vr a3 aev a4 aev2 astp acr]
  let ?b = "s prog_for_step"
  note ps = prog_for_step_def
  have b1: "tokenizer_token ?b = TOKENIZER_FOR" by (simp add: tok_simps prog tp ps)
  have bn1: "tokenizer_next ?b = ?b\<lparr>tpos := 2\<rparr>" by (simp add: tok_simps prog tp ps)
  have b2: "tokenizer_token (tokenizer_next ?b) = TOKENIZER_INTVAR"
    unfolding bn1 by (simp add: tok_simps prog ps)
  have bv: "8 = tokenizer_variable_num (tokenizer_next ?b)"
    unfolding bn1 by (simp add: tokenizer_variable_num_def tok_simps prog ps)
  have bn2: "tokenizer_next (tokenizer_next ?b) = ?b\<lparr>tpos := 3\<rparr>"
    unfolding bn1 by (simp add: tok_simps prog ps)
  have b3: "tokenizer_token (tokenizer_next (tokenizer_next ?b)) = TOKENIZER_EQ"
    unfolding bn2 by (simp add: tok_simps prog ps)
  have bn3: "tokenizer_next (tokenizer_next (tokenizer_next ?b)) = ?b\<lparr>tpos := 4\<rparr>"
    unfolding bn2 by (simp add: tok_simps prog ps)
  have bev: "expr 9 (tokenizer_next (tokenizer_next (tokenizer_next ?b))) = Inr (TInt 1, ?b\<lparr>tpos := 5\<rparr>)"
    unfolding bn3
    by (simp add: eval_nat_numeral Let_def accept_tok_def tok_simps prog ps)
  have b4: "tokenizer_token (?b\<lparr>tpos := 5\<rparr>) = TOKENIZER_TO" by (simp add: tok_simps prog ps)
  have bev2: "intexpr 9 (tokenizer_next (?b\<lparr>tpos := 5, variables := (variables ?b)[nat 8 := 1]\<rparr>))
      = Inr (7, ?b\<lparr>tpos := 7, variables := (variables ?b)[nat 8 := 1]\<rparr>)"
    by (simp add: intexpr_def eval_nat_numeral Let_def accept_tok_def tok_simps prog ps
        typecheck_int_def d_i_def)
  have bstp: "(if tokenizer_token (?b\<lparr>tpos := 7, variables := (variables ?b)[nat 8 := 1]\<rparr>) = TOKENIZER_STEP
       then intexpr 9 (tokenizer_next (?b\<lparr>tpos := 7, variables := (variables ?b)[nat 8 := 1]\<rparr>))
       else Inr (1, ?b\<lparr>tpos := 7, variables := (variables ?b)[nat 8 := 1]\<rparr>))
      = Inr (2, ?b\<lparr>tpos := 9, variables := (variables ?b)[nat 8 := 1]\<rparr>)"
    by (simp add: intexpr_def eval_nat_numeral Let_def accept_tok_def tok_simps prog ps
        typecheck_int_def d_i_def)
  have bcr: "tokenizer_token (?b\<lparr>tpos := 9, variables := (variables ?b)[nat 8 := 1]\<rparr>) = TOKENIZER_CR"
    by (simp add: tok_simps prog ps)
  note thb = for_overflow_silently_dropped [OF ovf lenv b1 b2 bv vr b3 bev b4 bev2 bstp bcr]
  from tha [THEN conjunct1] thb [THEN conjunct1] show ?thesis
    unfolding s_def by (simp add: ubasic_init_def)
qed

section \<open>NEXT\<close>

text \<open>
  C2. A NEXT statement of a program of numbered lines, with at least one frame on the
  For stack, \<open>fs\<close> being the top frame and \<open>var\<close> the variable the statement names. If
  \<open>var\<close> differs from the frame's variable the statement is the fatal mismatched-NEXT
  error. If it is the same (an integer variable of the table), the variable becomes
  \<open>v'\<close>, its old value plus the frame's step in the arithmetic of \<open>value_t\<close>. If \<open>v'\<close>
  has not passed the limit in the direction of the step (step >= 0: \<open>v' <= to\<close>;
  step < 0: \<open>v' >= to\<close>) and the line recorded by the FOR exists, the statement returns
  with the tokenizer where a line with the recorded number starts, the For stack and
  its pointer as before. Otherwise the pointer is decremented and the end-of-line token
  is accepted, which leaves the tokenizer on the token after it, the following line.
\<close>

theorem next_statement_steps:
  assumes prog: "program s = concat ls" and ok: "lines_ok ls"
    and snd: "index_sound s ls" and fuel: "length (program s) < k"
    and lenf: "length (for_stack s) = 4"
    and lenv: "length (variables s) = 286"
    and ptr: "0 < for_stack_ptr s" "for_stack_ptr s \<le> 4"
    and nx: "tokenizer_token s = TOKENIZER_NEXT"
    and iv: "tokenizer_token (tokenizer_next s) = TOKENIZER_INTVAR"
    and var: "var = tokenizer_variable_num (tokenizer_next s)"
    and fs: "fs = for_stack s ! nat (for_stack_ptr s - 1)"
    and v': "v' = wrap_value (variables s ! nat var + step fs)"
    and s2: "s2 = tokenizer_next (tokenizer_next s)"
  shows "(var \<noteq> for_variable fs \<longrightarrow> next_statement k s = Inl MismatchedNext)
       \<and> (var = for_variable fs \<and> var AND stringflag s = 0 \<and> 0 \<le> var \<and> var < 286 \<longrightarrow>
            (if (step fs \<ge> 0 \<and> v' \<le> to fs) \<or> (step fs < 0 \<and> v' \<ge> to fs)
             then has_line ls (line_after_for fs) \<longrightarrow>
                    next_statement k s
                      = Inr (s2\<lparr>variables := (variables s)[nat var := v'],
                                tpos := jump_target s ls (line_after_for fs)\<rparr>)
                  \<and> (line_after_for fs, jump_target s ls (line_after_for fs)) \<in> set (line_table ls 0)
             else next_statement k s
                    = accept_tok TOKENIZER_CR
                        (s2\<lparr>variables := (variables s)[nat var := v'],
                            for_stack_ptr := for_stack_ptr s - 1\<rparr>)
                  \<and> (tokenizer_token s2 = TOKENIZER_CR \<longrightarrow>
                       next_statement k s
                         = Inr (s2\<lparr>variables := (variables s)[nat var := v'],
                                   for_stack_ptr := for_stack_ptr s - 1,
                                   tpos := tpos s2 + 1\<rparr>))))"
proof -
  let ?s1 = "tokenizer_next s"
  let ?s2 = "tokenizer_next ?s1"
  let ?s3 = "?s2\<lparr>variables := (variables s)[nat var := v']\<rparr>"
  have a1: "accept_tok TOKENIZER_NEXT s = Inr ?s1"
    using nx by (simp add: accept_tok_def)
  have a2: "accept_tok TOKENIZER_INTVAR ?s1 = Inr ?s2"
    using iv by (simp add: accept_tok_def)
  have g: "arr_get (for_stack ?s2) (for_stack_ptr ?s2 - 1) = Inr fs"
    using lenf ptr fs by (simp add: arr_get_def)
  have pre: "next_statement k s =
      (if var = for_variable fs then
         bindE (ubasic_get_variable var ?s2) (\<lambda>t.
           bindE (d_i t) (\<lambda>i.
             let v1 = wrap_value (i + step fs);
                 t1 = TV (type t) (DI v1)
             in
             bindE (ubasic_set_variable var t1 ?s2) (\<lambda>s3.
               if (step fs \<ge> 0 \<and> v1 \<le> to fs) \<or> (step fs < 0 \<and> v1 \<ge> to fs)
               then jump_linenum k (line_after_for fs) s3
               else accept_tok TOKENIZER_CR (s3\<lparr>for_stack_ptr := for_stack_ptr s3 - 1\<rparr>))))
       else Inl MismatchedNext)"
    using a1 a2 g ptr var by (simp add: next_statement_def Let_def)
  have mis: "next_statement k s = Inl MismatchedNext" if "var \<noteq> for_variable fs"
    using pre that by simp
  {
    assume same: "var = for_variable fs" and ns: "var AND stringflag s = 0"
      and lo: "0 \<le> var" and hi: "var < 286"
    have gv: "ubasic_get_variable var ?s2 = Inr (TInt (variables s ! nat var))"
      using ns lo hi lenv by (simp add: ubasic_get_variable_def MAX_VARNUM_def arr_get_def)
    have sv: "ubasic_set_variable var (TInt v') ?s2 = Inr ?s3"
      using ns lo hi lenv
      by (simp add: ubasic_set_variable_def MAX_VARNUM_def arr_set_def typecheck_int_def d_i_def)
    have eq: "next_statement k s =
        (if (step fs \<ge> 0 \<and> v' \<le> to fs) \<or> (step fs < 0 \<and> v' \<ge> to fs)
         then jump_linenum k (line_after_for fs) ?s3
         else accept_tok TOKENIZER_CR (?s3\<lparr>for_stack_ptr := for_stack_ptr s - 1\<rparr>))"
      using pre same gv sv v' by (simp add: d_i_def Let_def)
    have pr3: "program ?s3 = concat ls" using prog by simp
    have fuel3: "length (program ?s3) < k" using fuel by simp
    have tg: "jump_target ?s3 ls n = jump_target s ls n" for n
      by (simp add: jump_target_def index_find_def)
    have jmp: "jump_linenum k (line_after_for fs) ?s3
          = Inr (?s3\<lparr>tpos := jump_target s ls (line_after_for fs)\<rparr>)"
      if hl: "has_line ls (line_after_for fs)"
      using jump_linenum_total [OF ok hl pr3 fuel3] tg by simp
    have fall: "accept_tok TOKENIZER_CR (?s3\<lparr>for_stack_ptr := for_stack_ptr s - 1\<rparr>)
          = Inr (?s3\<lparr>for_stack_ptr := for_stack_ptr s - 1, tpos := tpos ?s2 + 1\<rparr>)"
      if c: "tokenizer_token ?s2 = TOKENIZER_CR"
    proof -
      let ?s4 = "?s3\<lparr>for_stack_ptr := for_stack_ptr s - 1\<rparr>"
      have t4: "tokenizer_token ?s4 = TOKENIZER_CR"
        using c by (simp add: tokenizer_token_def)
      then have "tokenizer_token ?s4 \<noteq> TOKENIZER_ENDOFINPUT" by simp
      from tokenizer_next_step [OF this] t4 show ?thesis by (simp add: accept_tok_def)
    qed
    have "(if (step fs \<ge> 0 \<and> v' \<le> to fs) \<or> (step fs < 0 \<and> v' \<ge> to fs)
             then has_line ls (line_after_for fs) \<longrightarrow>
                    next_statement k s
                      = Inr (?s3\<lparr>tpos := jump_target s ls (line_after_for fs)\<rparr>)
                  \<and> (line_after_for fs, jump_target s ls (line_after_for fs)) \<in> set (line_table ls 0)
             else next_statement k s
                    = accept_tok TOKENIZER_CR (?s3\<lparr>for_stack_ptr := for_stack_ptr s - 1\<rparr>)
                  \<and> (tokenizer_token ?s2 = TOKENIZER_CR \<longrightarrow>
                       next_statement k s
                         = Inr (?s3\<lparr>for_stack_ptr := for_stack_ptr s - 1, tpos := tpos ?s2 + 1\<rparr>)))"
      using eq jmp fall jump_target_in_table [OF snd] by (simp split: if_splits)
  }
  with mis show ?thesis unfolding s2 by blast
qed

theorem next_statement_steps_witness:
  "next_statement 13 (state_at_next 1 8 3)
     = Inr ((state_at_next 1 8 3)\<lparr>tpos := 8, variables := (replicate 286 0)[8 := 2]\<rparr>)
   \<and> next_statement 13 (state_at_next 3 8 3)
     = Inr ((state_at_next 3 8 3)
              \<lparr>tpos := 12, for_stack_ptr := 0, variables := (replicate 286 0)[8 := 4]\<rparr>)
   \<and> next_statement 13 (state_at_next 1 9 3) = Inl MismatchedNext
   \<and> next_statement 13 (state_at_next 2147483647 8 2147483647)
     = Inr ((state_at_next 2147483647 8 2147483647)
              \<lparr>tpos := 8, variables := (replicate 286 0)[8 := - 2147483648]\<rparr>)"
proof -
  define s where "s = state_at_next"
  define top where "top fv tov = \<lparr>line_after_for = 20, for_variable = fv, to = tov, step = 1\<rparr>"
    for fv tov :: int
  have pf: "prog_for = [lx_num 10, lx TOKENIZER_FOR, lx_intvar 8, lx TOKENIZER_EQ, lx_num 1,
      lx TOKENIZER_TO, lx_num 3, lx TOKENIZER_CR,
      lx_num 20, lx TOKENIZER_NEXT, lx_intvar 8, lx TOKENIZER_CR]"
    by (simp add: prog_for_def lines_for_def)
  have ok: "lines_ok lines_for"
    by (simp add: lines_ok_def line_ok_def lines_for_def lx_def lx_num_def lx_intvar_def)
  have hl: "has_line lines_for 20"
    by (simp add: has_line_def lines_for_def lx_def lx_num_def)
  have tab: "line_table lines_for 0 = [(10, 0), (20, 8)]"
    by (simp add: lines_for_def lx_def lx_num_def)
  have R: "next_statement 13 (s i fv tov) =
      (if fv \<noteq> 8 then Inl MismatchedNext
       else if wrap_value (i + 1) \<le> tov
       then Inr ((s i fv tov)\<lparr>variables := (variables (s i fv tov))[8 := wrap_value (i + 1)], tpos := 8\<rparr>)
       else Inr ((s i fv tov)\<lparr>variables := (variables (s i fv tov))[8 := wrap_value (i + 1)],
                   for_stack_ptr := 0, tpos := 12\<rparr>))" for i fv tov
  proof -
    let ?s = "s i fv tov"
    have prog: "program ?s = prog_for"
      by (simp add: s_def state_at_next_def ubasic_init_def)
    have progc: "program ?s = concat lines_for" by (simp add: prog prog_for_def)
    have tp: "tpos ?s = 9" by (simp add: s_def state_at_next_def)
    have li: "line_index ?s = [(10, 0), (20, 8)]"
      by (simp add: s_def state_at_next_def)
    have snd: "index_sound ?s lines_for" by (simp add: index_sound_def li tab)
    have fuel: "length (program ?s) < 13" by (simp add: prog pf)
    have vars: "variables ?s = (replicate 286 0)[8 := i]"
      by (simp add: s_def state_at_next_def)
    have flag: "stringflag ?s = 32768"
      by (simp add: s_def state_at_next_def ubasic_init_def)
    have fsp: "for_stack_ptr ?s = 1" by (simp add: s_def state_at_next_def)
    have lenf: "length (for_stack ?s) = 4" by (simp add: s_def state_at_next_def)
    have lenv: "length (variables ?s) = 286" by (simp add: vars)
    have p1: "0 < for_stack_ptr ?s" and p2: "for_stack_ptr ?s \<le> 4"
      by (simp_all add: fsp)
    have nx: "tokenizer_token ?s = TOKENIZER_NEXT"
      by (simp add: tok_simps prog tp pf)
    have n1: "tokenizer_next ?s = ?s\<lparr>tpos := 10\<rparr>"
      by (simp add: tok_simps prog tp pf)
    have iv: "tokenizer_token (tokenizer_next ?s) = TOKENIZER_INTVAR"
      unfolding n1 by (simp add: tok_simps prog pf)
    have var: "8 = tokenizer_variable_num (tokenizer_next ?s)"
      unfolding n1 by (simp add: tokenizer_variable_num_def tok_simps prog pf)
    have n2: "tokenizer_next (tokenizer_next ?s) = ?s\<lparr>tpos := 11\<rparr>"
      unfolding n1 by (simp add: tok_simps prog pf)
    have c3: "tokenizer_token (?s\<lparr>tpos := 11\<rparr>) = TOKENIZER_CR"
      by (simp add: tok_simps prog pf)
    have fs: "top fv tov = for_stack ?s ! nat (for_stack_ptr ?s - 1)"
      by (simp add: s_def state_at_next_def top_def)
    have old: "variables ?s ! nat 8 = i" by (simp add: vars)
    have v': "wrap_value (i + 1) = wrap_value (variables ?s ! nat 8 + step (top fv tov))"
      using old by (simp add: top_def)
    have ns: "(8 :: int) AND stringflag ?s = 0" by (simp add: flag)
    have tg: "jump_target ?s lines_for 20 = 8"
      by (simp add: jump_target_def index_find_def li)
    note th = next_statement_steps [OF progc ok snd fuel lenf lenv p1 p2 nx iv var fs v' n2 [symmetric]]
    show ?thesis
    proof (cases "fv = 8")
      case False
      then have "8 \<noteq> for_variable (top fv tov)" by (simp add: top_def)
      from th [THEN conjunct1, THEN mp, OF this] False show ?thesis by simp
    next
      case True
      have pre: "8 = for_variable (top fv tov) \<and> (8 :: int) AND stringflag ?s = 0
          \<and> (0 :: int) \<le> 8 \<and> (8 :: int) < 286"
        using ns True by (simp add: top_def)
      note th2 = th [THEN conjunct2, THEN mp, OF pre]
      show ?thesis
      proof (cases "wrap_value (i + 1) \<le> tov")
        case le: True
        then have c: "(step (top fv tov) \<ge> 0 \<and> wrap_value (i + 1) \<le> to (top fv tov))
            \<or> (step (top fv tov) < 0 \<and> wrap_value (i + 1) \<ge> to (top fv tov))"
          by (simp add: top_def)
        have hl': "has_line lines_for (line_after_for (top fv tov))"
          using hl by (simp add: top_def)
        from th2 [unfolded if_P [OF c], THEN mp, OF hl', THEN conjunct1]
        show ?thesis using True le tg by (simp add: top_def)
      next
        case gt: False
        then have c: "\<not> ((step (top fv tov) \<ge> 0 \<and> wrap_value (i + 1) \<le> to (top fv tov))
            \<or> (step (top fv tov) < 0 \<and> wrap_value (i + 1) \<ge> to (top fv tov)))"
          by (simp add: top_def)
        from th2 [unfolded if_not_P [OF c], THEN conjunct2, THEN mp, OF c3]
        show ?thesis using True gt fsp by simp
      qed
    qed
  qed
  have w1: "wrap_value (1 + 1) = 2" and w3: "wrap_value (3 + 1) = 4"
    and wm: "wrap_value (2147483647 + 1) = - 2147483648"
    by (simp_all add: wrap_value_def)
  from R [of 1 8 3] R [of 3 8 3] R [of 1 9 3] R [of 2147483647 8 2147483647]
  show ?thesis
    unfolding w1 w3 wm s_def by (simp add: state_at_next_def)
qed

section \<open>Jumping to a line that is not in the index\<close>




end
